theory Spec2Isabelle
  imports Complex_Main "HOL-Library.AList"
begin

section \<open>JavaScript values\<close>

text \<open>
  The worker is JavaScript and reads loosely typed Firestore documents: a field may be
  absent, null, a boolean, a number or a string, and the code decides by truthiness
  (\<^verbatim>\<open>!d.timestamp\<close>, \<^verbatim>\<open>d.count || 0\<close>) and by numeric coercion (\<^verbatim>\<open>Number(...)\<close>).
  A number is a finite value or NaN. Finite doubles are modelled as exact rationals, so
  floating-point rounding is not modelled; the infinities and object-valued fields
  (Firestore timestamps, maps, arrays) are left out.
\<close>

datatype number = Fin rat | NaN

datatype jsval = JUndefined | JNull | JBool bool | JNum number | JStr string

text \<open>ToBoolean.\<close>

fun truthy :: "jsval \<Rightarrow> bool" where
  "truthy JUndefined = False"
| "truthy JNull = False"
| "truthy (JBool b) = b"
| "truthy (JNum (Fin x)) = (x \<noteq> 0)"
| "truthy (JNum NaN) = False"
| "truthy (JStr s) = (s \<noteq> [])"

text \<open>\<^verbatim>\<open>a || b\<close>: the left operand when it is truthy, else the right one.\<close>

definition js_or :: "jsval \<Rightarrow> jsval \<Rightarrow> jsval" where
  "js_or a b = (if truthy a then a else b)"

text \<open>The relational operators on numbers: every comparison with NaN is false.\<close>

fun num_lt :: "number \<Rightarrow> number \<Rightarrow> bool" where
  "num_lt (Fin a) (Fin b) = (a < b)"
| "num_lt _ _ = False"

fun num_le :: "number \<Rightarrow> number \<Rightarrow> bool" where
  "num_le (Fin a) (Fin b) = (a \<le> b)"
| "num_le _ _ = False"

fun num_ge :: "number \<Rightarrow> number \<Rightarrow> bool" where
  "num_ge (Fin a) (Fin b) = (b \<le> a)"
| "num_ge _ _ = False"

fun num_add :: "number \<Rightarrow> number \<Rightarrow> number" where
  "num_add (Fin a) (Fin b) = Fin (a + b)"
| "num_add _ _ = NaN"

text \<open>\<^verbatim>\<open>Math.min\<close> and \<^verbatim>\<open>Math.max\<close> of two numbers: NaN when either is NaN.\<close>

fun Math_min :: "number \<Rightarrow> number \<Rightarrow> number" where
  "Math_min (Fin a) (Fin b) = Fin (min a b)"
| "Math_min _ _ = NaN"

fun Math_max :: "number \<Rightarrow> number \<Rightarrow> number" where
  "Math_max (Fin a) (Fin b) = Fin (max a b)"
| "Math_max _ _ = NaN"

section \<open>The platform: built-ins and libraries the worker calls\<close>

text \<open>
  Three things the worker uses are not code of the repository and are taken as
  parameters: the numeric value of a string (ECMAScript StringToNumber, the string case
  of \<^verbatim>\<open>Number(s)\<close>), \<^verbatim>\<open>geolib.getDistance\<close> (metres between two points given as latitude
  and longitude; \<open>None\<close> when the library throws, as it does for a coordinate that it
  cannot read), and the system clock: the k-th call of \<^verbatim>\<open>Date.now()\<close> of a run returns
  \<open>clock P k\<close>.
\<close>

record platform =
  StringToNumber :: "string \<Rightarrow> number"
  getDistance :: "jsval \<times> jsval \<Rightarrow> jsval \<times> jsval \<Rightarrow> number option"
  clock :: "nat \<Rightarrow> rat"

text \<open>\<^verbatim>\<open>Number(v)\<close>, ECMAScript ToNumber.\<close>

fun ToNumber :: "platform \<Rightarrow> jsval \<Rightarrow> number" where
  "ToNumber P JUndefined = NaN"
| "ToNumber P JNull = Fin 0"
| "ToNumber P (JBool b) = Fin (if b then 1 else 0)"
| "ToNumber P (JNum n) = n"
| "ToNumber P (JStr s) = StringToNumber P s"

text \<open>
  \<^verbatim>\<open>Number(x).toFixed(4)\<close>: the decimal numeral with four fractional digits nearest to x
  (ties away from zero), with a leading minus sign when x is negative, or the text NaN.
  The numeral is represented by its sign and the integer n with n / 10^4 nearest to |x|;
  two numbers have the same numeral exactly when they have the same representation.
\<close>

datatype fixed4 = FixedNaN | Fixed bool nat

fun toFixed4 :: "number \<Rightarrow> fixed4" where
  "toFixed4 NaN = FixedNaN"
| "toFixed4 (Fin x) = Fixed (x < 0) (nat \<lfloor>\<bar>x\<bar> * 10000 + 1 / 2\<rfloor>)"

text \<open>
  \<^verbatim>\<open>new Date(t).toISOString()\<close> throws a RangeError unless \<open>t\<close> is a time value that a Date
  can hold, which is one of at most 8.64e15 milliseconds from the epoch.
\<close>

definition valid_time :: "rat \<Rightarrow> bool" where
  "valid_time t = (\<bar>t\<bar> \<le> 8640000000000000)"

section \<open>Documents and the store\<close>

text \<open>
  A document of the \<^verbatim>\<open>cameras\<close> (or \<^verbatim>\<open>camera_reports\<close>) collection maps field names to
  values; reading an absent field gives undefined. The fields the worker reads or writes
  are named, any other field is \<open>Fother name\<close>.
\<close>

datatype field_name =
  Ftype | Ftimestamp | Fcount | Fconfidence | Fhotspot | Fremoved | FremovedByWorker
  | FlastSeen | FexpiresAt | Flat | Flon | Fother string

type_synonym doc = "field_name \<Rightarrow> jsval"

text \<open>A document of the \<^verbatim>\<open>camera_hotspots\<close> collection, as the worker writes it.\<close>

record hotspotDoc =
  hs_lat :: number
  hs_lon :: number
  hs_type :: string
  report_count :: nat
  lastReported :: number
  hs_confidence :: rat
  updatedAt :: rat

text \<open>
  The id of a summary is the text \<^verbatim>\<open>hs_<lat>_<lon>\<close> built from the two toFixed(4) numerals;
  it is represented by the pair of numerals.
\<close>

type_synonym hotspotId = "fixed4 \<times> fixed4"

text \<open>
  The store: the \<^verbatim>\<open>cameras\<close> collection in the order a snapshot lists it, the
  \<^verbatim>\<open>camera_hotspots\<close> collection, and whether the run has thrown. An exception ends the
  run (\<^verbatim>\<open>main().catch\<close> exits with code 1) and nothing is rolled back: \<open>failed\<close> is set, and
  every later store operation leaves a failed world as it is, so the world returned is
  the one at the moment of the throw. The ids of a collection are unique; the properties
  below are stated for a store whose list of cameras has distinct ids and that has not
  failed when the run starts.
\<close>

record world =
  cameras :: "(string \<times> doc) list"
  camera_hotspots :: "hotspotId \<rightharpoonup> hotspotDoc"
  failed :: bool

text \<open>
  What the worker does, in order: the three store operations it issues, and \<open>Throw\<close>, an
  exception raised by the worker's own statements. \<^verbatim>\<open>update\<close> patches the named fields of
  an existing document and rejects (the worker then throws) when the document does not
  exist; \<^verbatim>\<open>delete\<close> removes a document; \<^verbatim>\<open>set(..., {merge: true})\<close> is only used with all
  seven summary fields given, so it creates or overwrites the summary. The functions
  below list what the code does statement by statement; what stands after a \<open>Throw\<close> in
  such a list is never executed.
\<close>

datatype store_op =
  UpdateCam string "(field_name \<times> jsval) list"
  | DeleteCam string
  | SetHotspot hotspotId hotspotDoc
  | Throw

definition apply_patch :: "(field_name \<times> jsval) list \<Rightarrow> doc \<Rightarrow> doc" where
  "apply_patch patch d = fold (\<lambda>(f, v) d'. d'(f := v)) patch d"

fun exec_op :: "store_op \<Rightarrow> world \<Rightarrow> world" where
  "exec_op (UpdateCam i patch) w =
     (if failed w then w
      else case map_of (cameras w) i of
             None \<Rightarrow> w\<lparr>failed := True\<rparr>
           | Some d \<Rightarrow> w\<lparr>cameras := AList.update i (apply_patch patch d) (cameras w)\<rparr>)"
| "exec_op (DeleteCam i) w =
     (if failed w then w else w\<lparr>cameras := AList.delete i (cameras w)\<rparr>)"
| "exec_op (SetHotspot k h) w =
     (if failed w then w else w\<lparr>camera_hotspots := (camera_hotspots w)(k \<mapsto> h)\<rparr>)"
| "exec_op Throw w = (if failed w then w else w\<lparr>failed := True\<rparr>)"

definition exec_ops :: "store_op list \<Rightarrow> world \<Rightarrow> world" where
  "exec_ops ops w = fold exec_op ops w"

section \<open>The worker (the patched draft of cleanup.js)\<close>

text \<open>
  The configuration constants of the patched draft, the file \<^verbatim>\<open>unnamed/part_001\<close> of the
  sources. (Line 15 of that file carries a stray pasted statement inside the \<^verbatim>\<open>MS\<close>
  literal; \<^verbatim>\<open>MS\<close> is read as the two entries HOUR and DAY that follow it.)
\<close>

definition MOBILE_EXPIRE_HOURS :: rat where "MOBILE_EXPIRE_HOURS = 10"
definition OTHER_EXPIRE_HOURS :: rat where "OTHER_EXPIRE_HOURS = 10"
definition FIXED_REMOVE_THRESHOLD :: rat where "FIXED_REMOVE_THRESHOLD = - 3"
definition HOTSPOT_RADIUS_M :: rat where "HOTSPOT_RADIUS_M = 200"
definition HOTSPOT_WINDOW_DAYS :: rat where "HOTSPOT_WINDOW_DAYS = 10"
definition HOTSPOT_THRESHOLD :: nat where "HOTSPOT_THRESHOLD = 3"
definition PRESERVE_HOTSPOT_DAYS :: rat where "PRESERVE_HOTSPOT_DAYS = 10"
definition MS_HOUR :: rat where "MS_HOUR = 1000 * 60 * 60"
definition MS_DAY :: rat where "MS_DAY = 1000 * 60 * 60 * 24"

definition hotspotWindowCutoff :: "rat \<Rightarrow> rat" where
  "hotspotWindowCutoff now = now - HOTSPOT_WINDOW_DAYS * MS_DAY"

text \<open>
  A \<^verbatim>\<open>console.log\<close> whose message holds \<^verbatim>\<open>new Date(t).toISOString()\<close>: it does nothing to the
  store and throws when \<open>t\<close> is out of range. The worker has three of them, after reading
  the clock, after writing a default expiry and after extending a hotspot. Its other log
  lines print texts and stored values as they are, and are left out.
\<close>

definition log_date :: "rat \<Rightarrow> store_op list" where
  "log_date t = (if valid_time t then [] else [Throw])"

subsection \<open>Pass 1: per-document maintenance\<close>

text \<open>
  One iteration of the first loop works on the in-memory copy \<open>d\<close> of document \<open>i\<close> and
  issues writes to the store. The loop never reads the store again, so each block below
  returns the in-memory copy as it leaves it together with the writes it issued, in
  order; \<open>main\<close> executes them in that order.
\<close>

text \<open>\<^verbatim>\<open>d.type || 'mobile_camera'\<close>\<close>

definition type_of :: "doc \<Rightarrow> jsval" where
  "type_of d = js_or (d Ftype) (JStr ''mobile_camera'')"

text \<open>\<^verbatim>\<open>if (!d.timestamp) { update({timestamp: now}); d.timestamp = now }\<close>\<close>

definition ensure_timestamp :: "rat \<Rightarrow> string \<Rightarrow> doc \<Rightarrow> doc \<times> store_op list" where
  "ensure_timestamp now i d =
     (if \<not> truthy (d Ftimestamp)
      then (d(Ftimestamp := JNum (Fin now)), [UpdateCam i [(Ftimestamp, JNum (Fin now))]])
      else (d, []))"

text \<open>\<^verbatim>\<open>(typeof d.count === 'number') ? d.count : Number(d.count || 0)\<close>\<close>

definition count_of :: "platform \<Rightarrow> doc \<Rightarrow> number" where
  "count_of P d =
     (case d Fcount of
        JNum n \<Rightarrow> n
      | v \<Rightarrow> ToNumber P (js_or v (JNum (Fin 0))))"

text \<open>The default confidence, written when the field is undefined or null.\<close>

definition ensure_confidence :: "string \<Rightarrow> jsval \<Rightarrow> doc \<Rightarrow> doc \<times> store_op list" where
  "ensure_confidence i ty d =
     (if d Fconfidence = JUndefined \<or> d Fconfidence = JNull
      then (let conf = JNum (Fin (if ty = JStr ''fixed_camera'' then 100 else 70))
            in (d(Fconfidence := conf), [UpdateCam i [(Fconfidence, conf)]]))
      else (d, []))"

text \<open>
  The branch for fixed cameras: ensure the hotspot flag, mark removed at the threshold,
  and \<^verbatim>\<open>continue\<close>.
\<close>

definition fixed_camera :: "rat \<Rightarrow> string \<Rightarrow> number \<Rightarrow> doc \<Rightarrow> doc \<times> store_op list" where
  "fixed_camera now i count d =
     (let (d1, o1) =
            (if \<not> truthy (d Fhotspot)
             then (d(Fhotspot := JBool True), [UpdateCam i [(Fhotspot, JBool True)]])
             else (d, []));
          o2 = (if num_le count (Fin FIXED_REMOVE_THRESHOLD) \<and> \<not> truthy (d1 Fremoved)
                then [UpdateCam i [(Fremoved, JBool True), (FremovedByWorker, JBool True),
                                   (FlastSeen, JNum (Fin now))]]
                else [])
      in (d1, o1 @ o2))"

text \<open>\<^verbatim>\<open>(Number(d.timestamp) || now)\<close> and \<^verbatim>\<open>Number(d.timestamp) || 0\<close>: both operands are numbers.\<close>

definition number_or :: "number \<Rightarrow> rat \<Rightarrow> rat" where
  "number_or n dflt = (case n of Fin x \<Rightarrow> (if x \<noteq> 0 then x else dflt) | NaN \<Rightarrow> dflt)"

definition lifetimeHours :: "jsval \<Rightarrow> rat" where
  "lifetimeHours ty = (if ty = JStr ''other'' then OTHER_EXPIRE_HOURS else MOBILE_EXPIRE_HOURS)"

text \<open>The default expiry, timestamp plus lifetime, written and then logged.\<close>

definition ensure_expiresAt ::
  "platform \<Rightarrow> rat \<Rightarrow> string \<Rightarrow> jsval \<Rightarrow> doc \<Rightarrow> doc \<times> store_op list" where
  "ensure_expiresAt P now i ty d =
     (if \<not> truthy (d FexpiresAt)
      then (let expiresAt = number_or (ToNumber P (d Ftimestamp)) now
                            + lifetimeHours ty * MS_HOUR
            in (d(FexpiresAt := JNum (Fin expiresAt)),
                [UpdateCam i [(FexpiresAt, JNum (Fin expiresAt))]] @ log_date expiresAt))
      else (d, []))"

definition ensure_lastSeen :: "rat \<Rightarrow> string \<Rightarrow> doc \<Rightarrow> doc \<times> store_op list" where
  "ensure_lastSeen now i d =
     (if \<not> truthy (d FlastSeen)
      then (let v = js_or (d Ftimestamp) (JNum (Fin now))
            in (d(FlastSeen := v), [UpdateCam i [(FlastSeen, v)]]))
      else (d, []))"

text \<open>The write that hides a document from the app.\<close>

definition mark_removed :: "rat \<Rightarrow> string \<Rightarrow> store_op" where
  "mark_removed now i =
     UpdateCam i [(Fremoved, JBool True), (FremovedByWorker, JBool True),
                  (FlastSeen, JNum (Fin now))]"

text \<open>
  The block between the PATCH markers: delete a dead document only when it is older than
  the hotspot window, hide it otherwise; extend an expired hotspot, and log the new
  expiry.
\<close>

definition preserve_patch :: "platform \<Rightarrow> rat \<Rightarrow> string \<Rightarrow> number \<Rightarrow> doc \<Rightarrow> store_op list" where
  "preserve_patch P now i count d =
     (let ts = number_or (ToNumber P (d Ftimestamp)) 0;
          windowCutoff = hotspotWindowCutoff now
      in if \<not> truthy (d Fhotspot) \<and> num_le count (Fin 0) then
           (if ts < windowCutoff then [DeleteCam i]
            else if \<not> truthy (d Fremoved) then [mark_removed now i] else [])
         else if truthy (d FexpiresAt) \<and> num_lt (ToNumber P (d FexpiresAt)) (Fin now) then
           (if \<not> truthy (d Fhotspot) then
              (if ts < windowCutoff then [DeleteCam i]
               else if \<not> truthy (d Fremoved) then [mark_removed now i] else [])
            else (let preserveUntil = now + PRESERVE_HOTSPOT_DAYS * MS_DAY
                  in [UpdateCam i [(FexpiresAt, JNum (Fin preserveUntil)),
                                   (FlastSeen, JNum (Fin now))]]
                     @ log_date preserveUntil))
         else [])"

text \<open>The body of the first loop.\<close>

definition maintain :: "platform \<Rightarrow> rat \<Rightarrow> string \<Rightarrow> doc \<Rightarrow> doc \<times> store_op list" where
  "maintain P now i d =
     (let ty = type_of d;
          (d1, o1) = ensure_timestamp now i d;
          count = count_of P d1;
          (d2, o2) = ensure_confidence i ty d1
      in if ty = JStr ''fixed_camera'' then
           (let (d3, o3) = fixed_camera now i count d2 in (d3, o1 @ o2 @ o3))
         else
           (let (d3, o3) = ensure_expiresAt P now i ty d2;
                (d4, o4) = ensure_lastSeen now i d3
            in (d4, o1 @ o2 @ o3 @ o4 @ preserve_patch P now i count d4)))"

text \<open>The first loop: the in-memory array after it, and the writes it issued.\<close>

fun per_doc_pass ::
  "platform \<Rightarrow> rat \<Rightarrow> (string \<times> doc) list \<Rightarrow> (string \<times> doc) list \<times> store_op list" where
  "per_doc_pass P now [] = ([], [])"
| "per_doc_pass P now ((i, d) # cams) =
     (let (d', ops) = maintain P now i d;
          (cams', ops') = per_doc_pass P now cams
      in ((i, d') # cams', ops @ ops'))"

subsection \<open>Pass 2: hotspot detection\<close>

text \<open>
  The optional raw reports: \<open>reportsSnap\<close> is what the store returns for the query on
  \<^verbatim>\<open>camera_reports\<close>, or \<open>None\<close> when the query throws (the worker catches that and goes on
  with no reports). Each report gets the id \<^verbatim>\<open>r_<id>\<close>.
\<close>

definition reportDocs :: "(string \<times> doc) list option \<Rightarrow> (string \<times> doc) list" where
  "reportDocs reportsSnap =
     (case reportsSnap of
        None \<Rightarrow> []
      | Some docs \<Rightarrow> map (\<lambda>(i, d). (''r_'' @ i, d)) docs)"

text \<open>
  The filter that builds \<^verbatim>\<open>mobileDocs\<close>: type mobile_camera (the default type), and a truthy
  timestamp not older than the window cutoff.
\<close>

definition recent_mobile :: "platform \<Rightarrow> rat \<Rightarrow> doc \<Rightarrow> bool" where
  "recent_mobile P cutoff d =
     (js_or (d Ftype) (JStr ''mobile_camera'') = JStr ''mobile_camera''
      \<and> truthy (d Ftimestamp) \<and> num_ge (ToNumber P (d Ftimestamp)) (Fin cutoff))"

definition mobileDocs ::
  "platform \<Rightarrow> rat \<Rightarrow> (string \<times> doc) list \<Rightarrow> (string \<times> doc) list option
   \<Rightarrow> (string \<times> doc) list" where
  "mobileDocs P cutoff cams reportsSnap =
     filter (\<lambda>c. recent_mobile P cutoff (snd c)) cams
     @ filter (\<lambda>r. recent_mobile P cutoff (snd r)) (reportDocs reportsSnap)"

text \<open>\<^verbatim>\<open>!od.lat || !od.lon || !od.timestamp\<close> is false.\<close>

definition has_point :: "doc \<Rightarrow> bool" where
  "has_point d = (truthy (d Flat) \<and> truthy (d Flon) \<and> truthy (d Ftimestamp))"

text \<open>
  \<^verbatim>\<open>mobileDocs.filter(o => ...)\<close> around the seed \<open>b\<close>: an entry without a point is left out
  before its distance is computed; \<open>None\<close> when a distance computation throws.
\<close>

fun nearby :: "platform \<Rightarrow> doc \<Rightarrow> (string \<times> doc) list \<Rightarrow> (string \<times> doc) list option" where
  "nearby P b [] = Some []"
| "nearby P b (n # ns) =
     (if \<not> has_point (snd n) then nearby P b ns
      else case getDistance P (b Flat, b Flon) (snd n Flat, snd n Flon) of
             None \<Rightarrow> None
           | Some distance \<Rightarrow>
               map_option (\<lambda>rest. if num_le distance (Fin HOTSPOT_RADIUS_M) then n # rest else rest)
                 (nearby P b ns))"

text \<open>
  \<^verbatim>\<open>(nd.confidence || 70) + 20\<close>, as \<^verbatim>\<open>Math.min\<close> then reads it: with a string on the left
  the sum is the text followed by 20, otherwise the numeric sum.
\<close>

definition plus20 :: "platform \<Rightarrow> jsval \<Rightarrow> number" where
  "plus20 P v =
     (case v of
        JStr s \<Rightarrow> StringToNumber P (s @ ''20'')
      | _ \<Rightarrow> num_add (ToNumber P v) (Fin 20))"

text \<open>The promotion write for one member of a cluster; \<open>t\<close> numbers the clock reading.\<close>

definition promotion :: "platform \<Rightarrow> nat \<Rightarrow> string \<times> doc \<Rightarrow> store_op" where
  "promotion P t n =
     (let nd = snd n;
          newConf = Math_min (Fin 100) (plus20 P (js_or (nd Fconfidence) (JNum (Fin 70))));
          preserveUntil = clock P t + PRESERVE_HOTSPOT_DAYS * MS_DAY
      in UpdateCam (fst n)
           [(Fhotspot, JBool True),
            (Fconfidence, JNum newConf),
            (FexpiresAt, JNum (Fin preserveUntil)),
            (FlastSeen, JNum (Math_max (ToNumber P (js_or (nd FlastSeen) (JNum (Fin 0))))
                                       (ToNumber P (js_or (nd Ftimestamp) (JNum (Fin 0))))))])"

text \<open>\<^verbatim>\<open>nid && nid.startsWith('r_')\<close>\<close>

definition is_report_id :: "string \<Rightarrow> bool" where
  "is_report_id nid = (take 2 nid = ''r_'')"

text \<open>
  The inner loop over the members of a cluster: entries with a report id are skipped,
  every other member gets the promotion write. Returns the writes and the number of the
  next clock reading.
\<close>

fun promote_all :: "platform \<Rightarrow> nat \<Rightarrow> (string \<times> doc) list \<Rightarrow> store_op list \<times> nat" where
  "promote_all P t [] = ([], t)"
| "promote_all P t (n # ns) =
     (if is_report_id (fst n) then promote_all P t ns
      else (let (ops, t') = promote_all P (Suc t) ns in (promotion P t n # ops, t')))"

text \<open>
  \<^verbatim>\<open>Math.max(...xs)\<close>. (An empty spread gives -Infinity in JavaScript, which \<open>number\<close> does not
  have; the worker spreads \<^verbatim>\<open>nearby\<close> only when it has at least HOTSPOT_THRESHOLD members.)
\<close>

fun Math_max_list :: "number list \<Rightarrow> number" where
  "Math_max_list [] = NaN"
| "Math_max_list (x # xs) = fold Math_max xs x"

definition hotspotId_of :: "platform \<Rightarrow> doc \<Rightarrow> hotspotId" where
  "hotspotId_of P b = (toFixed4 (ToNumber P (b Flat)), toFixed4 (ToNumber P (b Flon)))"

definition hotspotDoc_of :: "platform \<Rightarrow> nat \<Rightarrow> doc \<Rightarrow> (string \<times> doc) list \<Rightarrow> hotspotDoc" where
  "hotspotDoc_of P t b nb =
     \<lparr> hs_lat = ToNumber P (b Flat),
       hs_lon = ToNumber P (b Flon),
       hs_type = ''mobile_camera'',
       report_count = length nb,
       lastReported =
         Math_max_list (map (\<lambda>n. ToNumber P (js_or (snd n Ftimestamp) (JNum (Fin 0)))) nb),
       hs_confidence = min 1 (of_nat (length nb) / of_nat HOTSPOT_THRESHOLD),
       updatedAt = clock P t \<rparr>"

text \<open>
  The second loop, over the seeds \<open>bases\<close> (the worker runs it with \<open>bases = docs =
  mobileDocs\<close>); \<open>t\<close> numbers the next clock reading. The loop reads only the in-memory
  array, which the promotion writes do not change. It ends when a distance computation
  throws.
\<close>

fun hotspot_pass ::
  "platform \<Rightarrow> (string \<times> doc) list \<Rightarrow> nat \<Rightarrow> (string \<times> doc) list \<Rightarrow> store_op list" where
  "hotspot_pass P docs t [] = []"
| "hotspot_pass P docs t (base # bases) =
     (let b = snd base in
      if \<not> has_point b then hotspot_pass P docs t bases
      else if truthy (b Fhotspot) then hotspot_pass P docs t bases
      else (case nearby P b docs of
              None \<Rightarrow> [Throw]
            | Some nb \<Rightarrow>
                if HOTSPOT_THRESHOLD \<le> length nb then
                  (let (ops, t') = promote_all P t nb
                   in ops @ [SetHotspot (hotspotId_of P b) (hotspotDoc_of P t' b nb)]
                      @ hotspot_pass P docs (Suc t') bases)
                else hotspot_pass P docs t bases))"

subsection \<open>The run\<close>

text \<open>
  \<open>main\<close>: read the clock and log it, snapshot the collection, run the two passes.
  Credentials, the store client and the exit code are outside the model, and reading a
  collection is taken to succeed; a run that threw ends with \<open>failed\<close> set.
\<close>

definition main :: "platform \<Rightarrow> (string \<times> doc) list option \<Rightarrow> world \<Rightarrow> world" where
  "main P reportsSnap w =
     (let now = clock P 0;
          cams = cameras w;
          (cams', ops1) = per_doc_pass P now cams;
          docs = mobileDocs P (hotspotWindowCutoff now) cams' reportsSnap;
          ops2 = hotspot_pass P docs 1 docs
      in exec_ops (log_date now @ ops1 @ ops2) w)"

text \<open>
  The two passes of \<open>main\<close> by name, and the store when the run has come to the end of the
  first pass.
\<close>

definition pass1 :: "platform \<Rightarrow> world \<Rightarrow> (string \<times> doc) list \<times> store_op list" where
  "pass1 P w = per_doc_pass P (clock P 0) (cameras w)"

definition candidates :: "platform \<Rightarrow> (string \<times> doc) list option \<Rightarrow> world \<Rightarrow> (string \<times> doc) list" where
  "candidates P reportsSnap w =
     mobileDocs P (hotspotWindowCutoff (clock P 0)) (fst (pass1 P w)) reportsSnap"

definition pass2 :: "platform \<Rightarrow> (string \<times> doc) list option \<Rightarrow> world \<Rightarrow> store_op list" where
  "pass2 P reportsSnap w =
     hotspot_pass P (candidates P reportsSnap w) 1 (candidates P reportsSnap w)"

definition run_pass1 :: "platform \<Rightarrow> world \<Rightarrow> world" where
  "run_pass1 P w = exec_ops (log_date (clock P 0) @ snd (pass1 P w)) w"

section \<open>Notions used to state the properties\<close>

text \<open>The document stored under an id, if any.\<close>

definition lookup :: "world \<Rightarrow> string \<Rightarrow> doc option" where
  "lookup w i = map_of (cameras w) i"

text \<open>The stored value of a field of a document, if the document exists.\<close>

definition stored_field :: "world \<Rightarrow> string \<Rightarrow> field_name \<Rightarrow> jsval option" where
  "stored_field w i f = map_option (\<lambda>d. d f) (lookup w i)"

text \<open>The camera document an operation addresses, and the operations of a list that
  address a given document.\<close>

fun cam_target :: "store_op \<Rightarrow> string option" where
  "cam_target (UpdateCam i p) = Some i"
| "cam_target (DeleteCam i) = Some i"
| "cam_target (SetHotspot k h) = None"
| "cam_target Throw = None"

definition ops_for :: "string \<Rightarrow> store_op list \<Rightarrow> store_op list" where
  "ops_for i ops = filter (\<lambda>op. cam_target op = Some i) ops"

text \<open>
  What the store operations of a list make of one document when all of them are executed
  (\<open>None\<close>: no document).
\<close>

fun doc_after :: "store_op list \<Rightarrow> doc option \<Rightarrow> doc option" where
  "doc_after [] s = s"
| "doc_after (UpdateCam i p # ops) s = doc_after ops (map_option (apply_patch p) s)"
| "doc_after (DeleteCam i # ops) s = doc_after ops None"
| "doc_after (SetHotspot k h # ops) s = doc_after ops s"
| "doc_after (Throw # ops) s = doc_after ops s"

text \<open>An operation writes a field when it is an update whose patch names the field.\<close>

fun writes_field :: "field_name \<Rightarrow> store_op \<Rightarrow> bool" where
  "writes_field f (UpdateCam i p) = (f \<in> fst ` set p)"
| "writes_field f (DeleteCam i) = False"
| "writes_field f (SetHotspot k h) = False"
| "writes_field f Throw = False"

text \<open>
  Nothing in the list throws: it holds no \<open>Throw\<close>, and no update in it addresses a
  document that is absent when the update is issued, given the set of documents present
  before the list runs.
\<close>

fun ops_safe :: "string set \<Rightarrow> store_op list \<Rightarrow> bool" where
  "ops_safe S [] = True"
| "ops_safe S (UpdateCam i p # ops) = (i \<in> S \<and> ops_safe S ops)"
| "ops_safe S (DeleteCam i # ops) = ops_safe (S - {i}) ops"
| "ops_safe S (SetHotspot k h # ops) = ops_safe S ops"
| "ops_safe S (Throw # ops) = False"

definition deleted_by :: "store_op list \<Rightarrow> string set" where
  "deleted_by ops = {i. DeleteCam i \<in> set ops}"

text \<open>
  The timestamp in milliseconds that the decisions of the first pass use for a document:
  \<^verbatim>\<open>Number(d.timestamp) || 0\<close>, read after a falsy timestamp has been replaced by now.
\<close>

definition timestamp_ms :: "platform \<Rightarrow> rat \<Rightarrow> doc \<Rightarrow> rat" where
  "timestamp_ms P now d =
     number_or (ToNumber P (if truthy (d Ftimestamp) then d Ftimestamp else JNum (Fin now))) 0"

text \<open>
  The distance from \<open>b\<close> to \<open>n\<close> is computed and is at most the radius; the entries of a
  list with a point within the radius of \<open>b\<close>, which is what \<open>nearby\<close> returns when no
  distance computation throws.
\<close>

definition within_radius :: "platform \<Rightarrow> doc \<Rightarrow> doc \<Rightarrow> bool" where
  "within_radius P b n =
     (case getDistance P (b Flat, b Flon) (n Flat, n Flon) of
        None \<Rightarrow> False
      | Some distance \<Rightarrow> num_le distance (Fin HOTSPOT_RADIUS_M))"

definition neighbours :: "platform \<Rightarrow> doc \<Rightarrow> (string \<times> doc) list \<Rightarrow> (string \<times> doc) list" where
  "neighbours P b docs = filter (\<lambda>n. has_point (snd n) \<and> within_radius P b (snd n)) docs"

text \<open>
  A seed starts a cluster: it has a point, is not flagged hotspot in memory, and at least
  HOTSPOT_THRESHOLD candidates lie within the radius.
\<close>

definition qualifies :: "platform \<Rightarrow> (string \<times> doc) list \<Rightarrow> string \<times> doc \<Rightarrow> bool" where
  "qualifies P docs base =
     (has_point (snd base) \<and> \<not> truthy (snd base Fhotspot)
      \<and> HOTSPOT_THRESHOLD \<le> length (neighbours P (snd base) docs))"

text \<open>
  The conditions under which the statements of the worker do not throw. The log line
  after a default expiry prints the expiry: a document is \<open>printable\<close> when it is a fixed
  camera or has an expiresAt, which get no default, or when its default expiry is a valid
  time. The clock is printable when now and the end of a preservation that starts now
  are valid times. The points of a list of documents are \<open>locatable\<close> when the library
  computes the distance between any two of them.
\<close>

definition default_expiry :: "platform \<Rightarrow> rat \<Rightarrow> doc \<Rightarrow> rat" where
  "default_expiry P now d =
     number_or (ToNumber P (if truthy (d Ftimestamp) then d Ftimestamp else JNum (Fin now))) now
     + lifetimeHours (type_of d) * MS_HOUR"

definition printable :: "platform \<Rightarrow> rat \<Rightarrow> doc \<Rightarrow> bool" where
  "printable P now d =
     (type_of d = JStr ''fixed_camera'' \<or> truthy (d FexpiresAt)
      \<or> valid_time (default_expiry P now d))"

definition printable_clock :: "platform \<Rightarrow> bool" where
  "printable_clock P =
     (valid_time (clock P 0) \<and> valid_time (clock P 0 + PRESERVE_HOTSPOT_DAYS * MS_DAY))"

definition locatable :: "platform \<Rightarrow> doc list \<Rightarrow> bool" where
  "locatable P ds =
     (\<forall>d \<in> set ds. \<forall>e \<in> set ds.
        truthy (d Flat) \<and> truthy (d Flon) \<and> truthy (e Flat) \<and> truthy (e Flon)
        \<longrightarrow> getDistance P (d Flat, d Flon) (e Flat, e Flon) \<noteq> None)"

text \<open>
  No statement of the first pass throws on a store when the clock and every document are
  printable; no statement of the run throws on a clean store, where in addition the
  points of the documents and of the raw reports are locatable.
\<close>

definition printable_store :: "platform \<Rightarrow> world \<Rightarrow> bool" where
  "printable_store P w =
     (printable_clock P \<and> (\<forall>c \<in> set (cameras w). printable P (clock P 0) (snd c)))"

definition clean :: "platform \<Rightarrow> (string \<times> doc) list option \<Rightarrow> world \<Rightarrow> bool" where
  "clean P r w =
     (printable_store P w \<and> locatable P (map snd (cameras w) @ map snd (reportDocs r)))"

text \<open>
  The first loop gets to the iteration of document \<open>i\<close>: the clock is printable, and so is
  every document that the snapshot lists before \<open>i\<close>. The iteration of a printable document
  then runs to its end.
\<close>

definition reaches :: "platform \<Rightarrow> world \<Rightarrow> string \<Rightarrow> bool" where
  "reaches P w i =
     (printable_clock P
      \<and> (\<forall>c \<in> set (takeWhile (\<lambda>c. fst c \<noteq> i) (cameras w)). printable P (clock P 0) (snd c)))"

text \<open>
  The expiresAt that the expiry test of the first pass reads, which is the stored one or
  the default written just before; the test \<^verbatim>\<open>d.expiresAt && Number(d.expiresAt) < now\<close>.
\<close>

definition expiry_read :: "platform \<Rightarrow> rat \<Rightarrow> doc \<Rightarrow> jsval" where
  "expiry_read P now d =
     (if truthy (d FexpiresAt) then d FexpiresAt else JNum (Fin (default_expiry P now d)))"

definition found_expired :: "platform \<Rightarrow> rat \<Rightarrow> doc \<Rightarrow> bool" where
  "found_expired P now d =
     (truthy (expiry_read P now d) \<and> num_lt (ToNumber P (expiry_read P now d)) (Fin now))"

text \<open>
  What the first pass decides for a document: it is due for deletion when it is not a
  fixed camera and not a hotspot, is dead (count at most 0) or found expired, and the
  number read from its timestamp is below the window cutoff. A document is \<open>settled\<close> when
  its defaults are set and neither a deletion nor the extension of an expired hotspot is
  due.
\<close>

definition due_for_deletion :: "platform \<Rightarrow> rat \<Rightarrow> doc \<Rightarrow> bool" where
  "due_for_deletion P now d =
     (type_of d \<noteq> JStr ''fixed_camera'' \<and> \<not> truthy (d Fhotspot)
      \<and> (num_le (count_of P d) (Fin 0) \<or> found_expired P now d)
      \<and> timestamp_ms P now d < hotspotWindowCutoff now)"

definition settled :: "platform \<Rightarrow> rat \<Rightarrow> doc \<Rightarrow> bool" where
  "settled P now d =
     (truthy (d Ftimestamp) \<and> d Fconfidence \<noteq> JUndefined \<and> d Fconfidence \<noteq> JNull
      \<and> (if type_of d = JStr ''fixed_camera'' then truthy (d Fhotspot)
         else truthy (d FexpiresAt) \<and> truthy (d FlastSeen)
              \<and> (if truthy (d Fhotspot) then \<not> found_expired P now d
                  else \<not> due_for_deletion P now d)))"

text \<open>The value of a field in the candidate entry with a given id, if there is one.\<close>

definition candidate_field ::
  "platform \<Rightarrow> (string \<times> doc) list option \<Rightarrow> world \<Rightarrow> string \<Rightarrow> field_name \<Rightarrow> jsval option" where
  "candidate_field P r w i f = map_option (\<lambda>d. d f) (map_of (candidates P r w) i)"

text \<open>The shape of a promotion write: the four fields, with hotspot set to true.\<close>

definition is_promotion :: "string \<Rightarrow> store_op \<Rightarrow> bool" where
  "is_promotion i op =
     (\<exists>c e l. op = UpdateCam i [(Fhotspot, JBool True), (Fconfidence, c), (FexpiresAt, e),
                                 (FlastSeen, l)])"

section \<open>Concrete data for the examples\<close>

text \<open>
  A platform for the concrete examples. Its StringToNumber reads the empty text as 0 and
  an unsigned decimal integer literal as its value, and gives NaN for every other text
  (as JavaScript does for \<^verbatim>\<open>abc\<close>). Its distance is a flat approximation, 111320 metres per
  degree along the larger of the two coordinate differences, and throws for a coordinate
  that is not a finite number; the examples only use points that coincide or lie some
  tens of metres apart on one meridian. Its clock starts at 1700000000000 ms and advances
  by one millisecond per reading.
\<close>

definition is_digit :: "char \<Rightarrow> bool" where
  "is_digit c = (48 \<le> (of_char c :: nat) \<and> (of_char c :: nat) \<le> 57)"

definition decimal_literal :: "string \<Rightarrow> number" where
  "decimal_literal s =
     (if s = [] then Fin 0
      else if list_all is_digit s
      then Fin (of_nat (fold (\<lambda>c n. 10 * n + (of_char c - 48)) s 0))
      else NaN)"

definition flat_distance :: "jsval \<times> jsval \<Rightarrow> jsval \<times> jsval \<Rightarrow> number option" where
  "flat_distance p q =
     (case (p, q) of
        ((JNum (Fin a), JNum (Fin b)), (JNum (Fin c), JNum (Fin d))) \<Rightarrow>
          Some (Fin (111320 * max \<bar>a - c\<bar> \<bar>b - d\<bar>))
      | _ \<Rightarrow> None)"

definition P0 :: platform where
  "P0 = \<lparr> StringToNumber = decimal_literal, getDistance = flat_distance,
          clock = (\<lambda>k. 1700000000000 + of_nat k) \<rparr>"

text \<open>
  A complete mobile report at a point, with the given timestamp and count: confidence 70,
  expiry ten hours after the timestamp, not removed, not hotspot.
\<close>

definition report :: "rat \<Rightarrow> rat \<Rightarrow> rat \<Rightarrow> jsval \<Rightarrow> doc" where
  "report la lo ts c =
     (\<lambda>f. JUndefined)
       (Ftype := JStr ''mobile_camera'', Flat := JNum (Fin la), Flon := JNum (Fin lo),
        Ftimestamp := JNum (Fin ts), Fcount := c, Fconfidence := JNum (Fin 70),
        FexpiresAt := JNum (Fin (ts + 36000000)), FlastSeen := JNum (Fin ts))"

definition store :: "(string \<times> doc) list \<Rightarrow> world" where
  "store cams = \<lparr> cameras = cams, camera_hotspots = Map.empty, failed = False \<rparr>"

text \<open>
  Two dead reports (count 0, not hotspot): one from months before the run, one from a
  quarter of an hour before it.
\<close>

definition w3 :: world where
  "w3 = store [(''old'', report 51 1 1690000000000 (JNum (Fin 0))),
               (''new'', report 52 1 1699999000000 (JNum (Fin 0)))]"

text \<open>A hotspot report whose expiry passed long before the run.\<close>

definition w4 :: world where
  "w4 = store [(''h'', (report 51 1 1699000000000 (JNum (Fin 0)))(Fhotspot := JBool True))]"


text \<open>A dead report older than the window, and three live reports at one point.\<close>

definition w7 :: world where
  "w7 = store [(''old'', report 51 1 1690000000000 (JNum (Fin 0))),
               (''a'', report 51 1 1699999000000 (JNum (Fin 2))),
               (''b'', report 51 1 1699999000000 (JNum (Fin 2))),
               (''c'', report 51 1 1699999000000 (JNum (Fin 2)))]"

text \<open>
  The three records of the specification's clustering example, which lie on the equator
  or on the prime meridian.
\<close>

definition docs10 :: "(string \<times> doc) list" where
  "docs10 = [(''a'', report 0 0 1699999000000 (JNum (Fin 1))),
             (''b'', report (5 / 10000) 0 1699999000000 (JNum (Fin 1))),
             (''c'', report 0 (5 / 10000) 1699999000000 (JNum (Fin 1)))]"

text \<open>A live report whose stored timestamp is the number 0.\<close>

definition d8 :: doc where
  "d8 = (report 51 1 1699999000000 (JNum (Fin 1)))(Ftimestamp := JNum (Fin 0))"

text \<open>A dead report from months before the run that another actor has marked removed.\<close>

definition w6 :: world where
  "w6 = store [(''x'', (report 51 1 1690000000000 (JNum (Fin 0)))(Fremoved := JBool True))]"

text \<open>One live report in the cameras collection, and two raw reports at the same point.\<close>

definition w2 :: world where
  "w2 = store [(''a'', report 51 1 1699999000000 (JNum (Fin 2)))]"

definition reports2 :: "(string \<times> doc) list option" where
  "reports2 = Some [(''x'', report 51 1 1699999000000 JUndefined),
                    (''y'', report 51 1 1699999000000 JUndefined)]"

text \<open>
  Three live reports on one meridian, 55 metres apart: pairwise within the radius, in
  three different grid cells.
\<close>

definition w1 :: world where
  "w1 = store [(''a'', report (515 / 10) 1 1699999000000 (JNum (Fin 2))),
               (''b'', report (515005 / 10000) 1 1699999000000 (JNum (Fin 2))),
               (''c'', report (51501 / 1000) 1 1699999000000 (JNum (Fin 2)))]"

text \<open>A dead report and two live ones at one point, all a quarter of an hour old.\<close>

definition wv1 :: world where
  "wv1 = store [(''x'', report 51 1 1699999000000 (JNum (Fin 0))),
                (''a'', report 51 1 1699999000000 (JNum (Fin 2))),
                (''b'', report 51 1 1699999000000 (JNum (Fin 2)))]"

text \<open>
  A dead report from a quarter of an hour before the run whose timestamp is stored as a
  date text.
\<close>

definition wt :: world where
  "wt = store [(''t'', (report 52 1 1699999000000 (JNum (Fin 0)))
                         (Ftimestamp := JStr ''2023-11-14T21:56:40.000Z''))]"


text \<open>A live report whose stored timestamp is the number 0, and two live reports at its point.\<close>

definition wz :: world where
  "wz = store [(''z'', d8),
               (''a'', report 51 1 1699999000000 (JNum (Fin 2))),
               (''b'', report 51 1 1699999000000 (JNum (Fin 2)))]"

section \<open>Executing operations\<close>

lemma exec_ops_Nil [simp]: "exec_ops [] w = w"
  by (simp add: exec_ops_def)

lemma exec_ops_Cons [simp]: "exec_ops (op # ops) w = exec_ops ops (exec_op op w)"
  by (simp add: exec_ops_def)

lemma exec_ops_append: "exec_ops (a @ b) w = exec_ops b (exec_ops a w)"
  by (simp add: exec_ops_def)

lemma exec_op_failed: "failed w \<Longrightarrow> exec_op op w = w"
  by (cases op) auto

lemma exec_ops_failed: "failed w \<Longrightarrow> exec_ops ops w = w"
  by (induction ops) (auto simp: exec_op_failed)

lemma failed_exec_op_mono: "failed w \<Longrightarrow> failed (exec_op op w)"
  by (simp add: exec_op_failed)

lemma exec_ops_not_failed_step:
  "\<not> failed (exec_ops (op # ops) w) \<Longrightarrow> \<not> failed (exec_op op w)"
  using exec_ops_failed by fastforce

lemma lookup_exec_op:
  "\<not> failed (exec_op op w) \<Longrightarrow>
   lookup (exec_op op w) i =
     (if cam_target op = Some i then doc_after [op] (lookup w i) else lookup w i)"
  by (cases op) (auto simp: lookup_def AList.update_conv' AList.delete_conv' split: option.splits if_splits)

lemma lookup_exec_ops:
  "\<not> failed (exec_ops ops w) \<Longrightarrow> lookup (exec_ops ops w) i = doc_after (ops_for i ops) (lookup w i)"
proof (induction ops arbitrary: w)
  case Nil
  then show ?case by (simp add: ops_for_def)
next
  case (Cons op ops)
  have nf: "\<not> failed (exec_op op w)"
    using Cons.prems by (rule exec_ops_not_failed_step)
  have "lookup (exec_ops (op # ops) w) i = doc_after (ops_for i ops) (lookup (exec_op op w) i)"
    using Cons.IH [of "exec_op op w"] Cons.prems by simp
  also have "\<dots> = doc_after (ops_for i (op # ops)) (lookup w i)"
    using lookup_exec_op [OF nf, of i] by (cases op) (auto simp: ops_for_def)
  finally show ?case .
qed

lemma ops_safe_append:
  "ops_safe S (a @ b) \<longleftrightarrow> ops_safe S a \<and> ops_safe (S - deleted_by a) b"
proof (induction a arbitrary: S)
  case Nil
  then show ?case by (simp add: deleted_by_def)
next
  case (Cons op a)
  have *: "S - {i} - deleted_by a = S - deleted_by (DeleteCam i # a)" for i
    by (auto simp: deleted_by_def)
  have **: "deleted_by (UpdateCam i p # a) = deleted_by a"
           "deleted_by (SetHotspot k h # a) = deleted_by a"
           "deleted_by (Throw # a) = deleted_by a" for i p k h
    by (auto simp: deleted_by_def)
  show ?case
    using Cons.IH by (cases op) (auto simp: * **)
qed

lemma dom_lookup_exec_op:
  "\<not> failed w \<Longrightarrow> \<not> failed (exec_op op w) \<Longrightarrow>
   dom (lookup (exec_op op w)) = (case op of DeleteCam i \<Rightarrow> dom (lookup w) - {i} | _ \<Rightarrow> dom (lookup w))"
  by (cases op) (auto simp: lookup_def AList.update_conv' AList.delete_conv' split: option.splits if_splits)

lemma ops_safe_not_failed:
  "\<not> failed w \<Longrightarrow> ops_safe (dom (lookup w)) ops \<Longrightarrow> \<not> failed (exec_ops ops w)"
proof (induction ops arbitrary: w)
  case Nil
  then show ?case by simp
next
  case (Cons op ops)
  have nf: "\<not> failed (exec_op op w)"
    using Cons.prems by (cases op) (auto simp: lookup_def split: option.splits)
  have "ops_safe (dom (lookup (exec_op op w))) ops"
    using Cons.prems dom_lookup_exec_op [OF Cons.prems(1) nf] by (cases op) auto
  then show ?case using Cons.IH [OF nf] by simp
qed

lemma ops_safe_no_throw: "ops_safe S ops \<Longrightarrow> Throw \<notin> set ops"
  by (induction S ops rule: ops_safe.induct) auto

lemma hotspots_exec_ops_cam:
  "\<forall>op \<in> set ops. \<forall>k h. op \<noteq> SetHotspot k h \<Longrightarrow>
   camera_hotspots (exec_ops ops w) = camera_hotspots w"
  apply (induction ops arbitrary: w)
   apply simp
  subgoal for op ops w by (cases op) (auto split: option.splits)
  done

text \<open>What holds of the store after a list of operations whether or not the run threw.\<close>

lemma lookup_exec_op_other:
  "cam_target op \<noteq> Some i \<Longrightarrow> lookup (exec_op op w) i = lookup w i"
  by (cases op) (auto simp: lookup_def AList.update_conv' AList.delete_conv' split: option.splits)

lemma lookup_exec_ops_other:
  "\<forall>op \<in> set ops. cam_target op \<noteq> Some i \<Longrightarrow> lookup (exec_ops ops w) i = lookup w i"
  by (induction ops arbitrary: w) (simp_all add: lookup_exec_op_other)

lemma lookup_exec_ops_absent:
  "lookup w i = None \<Longrightarrow> lookup (exec_ops ops w) i = None"
proof (induction ops arbitrary: w)
  case Nil
  then show ?case by simp
next
  case (Cons op ops)
  have "lookup (exec_op op w) i = None"
    using Cons.prems
    by (cases op) (auto simp: lookup_def AList.update_conv' AList.delete_conv' split: option.splits)
  then show ?case using Cons.IH by simp
qed

lemma lookup_exec_ops_present:
  "lookup w i \<noteq> None \<Longrightarrow> DeleteCam i \<notin> set ops \<Longrightarrow> lookup (exec_ops ops w) i \<noteq> None"
proof (induction ops arbitrary: w)
  case Nil
  then show ?case by simp
next
  case (Cons op ops)
  have "lookup (exec_op op w) i \<noteq> None"
    using Cons.prems
    by (cases op) (auto simp: lookup_def AList.update_conv' AList.delete_conv' split: option.splits)
  then show ?case using Cons.IH Cons.prems by simp
qed

lemma stored_field_exec_ops:
  "\<forall>op \<in> set ops. cam_target op = Some i \<longrightarrow> \<not> writes_field f op \<and> op \<noteq> DeleteCam i \<Longrightarrow>
   stored_field (exec_ops ops w) i f = stored_field w i f"
proof (induction ops arbitrary: w)
  case Nil
  then show ?case by simp
next
  case (Cons op ops)
  have "stored_field (exec_op op w) i f = stored_field w i f"
  proof (cases op)
    case (UpdateCam j p)
    have keep: "apply_patch p d f = d f" if "f \<notin> fst ` set p" for d
      using that unfolding apply_patch_def
      by (induction p arbitrary: d) (auto simp: split_def)
    show ?thesis
      using Cons.prems UpdateCam keep
      by (auto simp: stored_field_def lookup_def AList.update_conv' split: option.splits)
  next
    case (DeleteCam j)
    then show ?thesis
      using Cons.prems by (auto simp: stored_field_def lookup_def AList.delete_conv')
  qed (auto simp: stored_field_def lookup_def)
  then show ?case using Cons.IH Cons.prems by simp
qed

lemma log_date_valid [simp]: "valid_time t \<Longrightarrow> log_date t = []"
  by (simp add: log_date_def)

lemma log_date_mem: "op \<in> set (log_date t) \<Longrightarrow> op = Throw"
  by (simp add: log_date_def split: if_splits)

lemma log_date_mem_iff [simp]: "op \<in> set (log_date t) \<longleftrightarrow> op = Throw \<and> \<not> valid_time t"
  by (simp add: log_date_def)

lemma doc_after_log_date [simp]:
  "doc_after (log_date t) s = s" "doc_after (a @ log_date t) s = doc_after a s"
  by (induction a s rule: doc_after.induct) (auto simp: log_date_def)

section \<open>The loop body of the first pass\<close>

lemma fst_per_doc_pass:
  "fst (per_doc_pass P now cams) = map (\<lambda>c. (fst c, fst (maintain P now (fst c) (snd c)))) cams"
  by (induction cams) (auto simp: Let_def split: prod.splits)

lemma snd_per_doc_pass:
  "snd (per_doc_pass P now cams) = concat (map (\<lambda>c. snd (maintain P now (fst c) (snd c))) cams)"
  by (induction cams) (auto simp: Let_def split: prod.splits)

lemma number_or_0 [simp]: "number_or (Fin x) 0 = x"
  by (simp add: number_or_def)

lemma number_or_ge: "num_ge n (Fin c) \<Longrightarrow> \<not> number_or n 0 < c"
  by (cases n) (auto simp: number_or_def)

lemma count_of_upd [simp]: "f \<noteq> Fcount \<Longrightarrow> count_of P (d(f := v)) = count_of P d"
  by (simp add: count_of_def)

subsection \<open>The blocks of the loop body\<close>

lemma fst_ensure_timestamp:
  "fst (ensure_timestamp now i d) =
     (if truthy (d Ftimestamp) then d else d(Ftimestamp := JNum (Fin now)))"
  by (simp add: ensure_timestamp_def)

lemma snd_ensure_timestamp:
  "snd (ensure_timestamp now i d) =
     (if truthy (d Ftimestamp) then [] else [UpdateCam i [(Ftimestamp, JNum (Fin now))]])"
  by (simp add: ensure_timestamp_def)

lemma fst_ensure_confidence:
  "fst (ensure_confidence i ty d) =
     (if d Fconfidence = JUndefined \<or> d Fconfidence = JNull
      then d(Fconfidence := JNum (Fin (if ty = JStr ''fixed_camera'' then 100 else 70)))
      else d)"
  by (simp add: ensure_confidence_def Let_def)

lemma snd_ensure_confidence:
  "snd (ensure_confidence i ty d) =
     (if d Fconfidence = JUndefined \<or> d Fconfidence = JNull
      then [UpdateCam i [(Fconfidence, JNum (Fin (if ty = JStr ''fixed_camera'' then 100 else 70)))]]
      else [])"
  by (simp add: ensure_confidence_def Let_def)

lemma fst_ensure_expiresAt:
  "fst (ensure_expiresAt P now i ty d) =
     (if truthy (d FexpiresAt) then d
      else d(FexpiresAt := JNum (Fin (number_or (ToNumber P (d Ftimestamp)) now
                                       + lifetimeHours ty * MS_HOUR))))"
  by (simp add: ensure_expiresAt_def Let_def)

lemma snd_ensure_expiresAt:
  "snd (ensure_expiresAt P now i ty d) =
     (if truthy (d FexpiresAt) then []
      else [UpdateCam i [(FexpiresAt, JNum (Fin (number_or (ToNumber P (d Ftimestamp)) now
                                       + lifetimeHours ty * MS_HOUR)))]]
           @ log_date (number_or (ToNumber P (d Ftimestamp)) now + lifetimeHours ty * MS_HOUR))"
  by (simp add: ensure_expiresAt_def Let_def)

lemma fst_ensure_lastSeen:
  "fst (ensure_lastSeen now i d) =
     (if truthy (d FlastSeen) then d
      else d(FlastSeen := js_or (d Ftimestamp) (JNum (Fin now))))"
  by (simp add: ensure_lastSeen_def Let_def)

lemma snd_ensure_lastSeen:
  "snd (ensure_lastSeen now i d) =
     (if truthy (d FlastSeen) then []
      else [UpdateCam i [(FlastSeen, js_or (d Ftimestamp) (JNum (Fin now)))]])"
  by (simp add: ensure_lastSeen_def Let_def)

lemma fst_fixed_camera:
  "fst (fixed_camera now i c d) = (if truthy (d Fhotspot) then d else d(Fhotspot := JBool True))"
  by (simp add: fixed_camera_def Let_def)

lemma snd_fixed_camera:
  "snd (fixed_camera now i c d) =
     (if truthy (d Fhotspot) then [] else [UpdateCam i [(Fhotspot, JBool True)]])
     @ (if num_le c (Fin FIXED_REMOVE_THRESHOLD) \<and> \<not> truthy (d Fremoved)
        then [mark_removed now i] else [])"
  by (simp add: fixed_camera_def Let_def mark_removed_def)

text \<open>The in-memory document after the defaults that every kind of document gets.\<close>

lemma maintain_fixed:
  "type_of d = JStr ''fixed_camera'' \<Longrightarrow>
   maintain P now i d =
     (fst (fixed_camera now i (count_of P d)
             (fst (ensure_confidence i (type_of d) (fst (ensure_timestamp now i d))))),
      snd (ensure_timestamp now i d)
      @ snd (ensure_confidence i (type_of d) (fst (ensure_timestamp now i d)))
      @ snd (fixed_camera now i (count_of P d)
             (fst (ensure_confidence i (type_of d) (fst (ensure_timestamp now i d))))))"
  by (simp add: maintain_def split_def Let_def fst_ensure_timestamp)

lemma maintain_other:
  "type_of d \<noteq> JStr ''fixed_camera'' \<Longrightarrow>
   maintain P now i d =
     (let d2 = fst (ensure_confidence i (type_of d) (fst (ensure_timestamp now i d)));
          d3 = fst (ensure_expiresAt P now i (type_of d) d2);
          d4 = fst (ensure_lastSeen now i d3)
      in (d4,
          snd (ensure_timestamp now i d)
          @ snd (ensure_confidence i (type_of d) (fst (ensure_timestamp now i d)))
          @ snd (ensure_expiresAt P now i (type_of d) d2)
          @ snd (ensure_lastSeen now i d3)
          @ preserve_patch P now i (count_of P d) d4))"
  by (simp add: maintain_def split_def Let_def fst_ensure_timestamp)

lemmas fst_blocks = fst_ensure_timestamp fst_ensure_confidence fst_ensure_expiresAt
  fst_ensure_lastSeen fst_fixed_camera

lemmas snd_blocks = snd_ensure_timestamp snd_ensure_confidence snd_ensure_expiresAt
  snd_ensure_lastSeen snd_fixed_camera

lemma preserve_patch_cases:
  "preserve_patch P now i c d = [] \<or> preserve_patch P now i c d = [DeleteCam i]
   \<or> preserve_patch P now i c d = [mark_removed now i]
   \<or> preserve_patch P now i c d =
        [UpdateCam i [(FexpiresAt, JNum (Fin (now + PRESERVE_HOTSPOT_DAYS * MS_DAY))),
                      (FlastSeen, JNum (Fin now))]]
        @ log_date (now + PRESERVE_HOTSPOT_DAYS * MS_DAY)"
  by (simp add: preserve_patch_def Let_def)

lemma preserve_patch_target:
  "op \<in> set (preserve_patch P now i c d) \<Longrightarrow> cam_target op = Some i \<or> op = Throw"
  using preserve_patch_cases [of P now i c d] by (auto simp: mark_removed_def dest: log_date_mem)

lemma preserve_patch_safe:
  "i \<in> S \<Longrightarrow> valid_time (now + PRESERVE_HOTSPOT_DAYS * MS_DAY) \<Longrightarrow>
   ops_safe S (preserve_patch P now i c d)"
  using preserve_patch_cases [of P now i c d] by (auto simp: mark_removed_def)

lemma maintain_target:
  "op \<in> set (snd (maintain P now i d)) \<Longrightarrow> cam_target op = Some i \<or> op = Throw"
  by (cases "type_of d = JStr ''fixed_camera''")
     (auto simp: maintain_fixed maintain_other Let_def snd_blocks mark_removed_def
           dest: preserve_patch_target log_date_mem split: if_splits)

lemma ops_safe_updates:
  "\<forall>op \<in> set a. \<exists>p. op = UpdateCam i p \<Longrightarrow> i \<in> S \<Longrightarrow> ops_safe S (a @ b) = ops_safe S b"
  by (induction a) auto

text \<open>
  The loop body throws only at its two log lines: for a document that is not printable,
  or when the end of the preservation is not a valid time.
\<close>

lemma default_expiry_mem:
  "number_or (ToNumber P (fst (ensure_confidence i ty (fst (ensure_timestamp now i d))) Ftimestamp)) now
     + lifetimeHours (type_of d) * MS_HOUR = default_expiry P now d"
  by (simp add: default_expiry_def fst_ensure_timestamp fst_ensure_confidence)

lemma maintain_safe:
  assumes "i \<in> S" and pr: "printable P now d"
    and vt: "valid_time (now + PRESERVE_HOTSPOT_DAYS * MS_DAY)"
  shows "ops_safe S (snd (maintain P now i d))"
proof (cases "type_of d = JStr ''fixed_camera''")
  case True
  have "\<forall>op \<in> set (snd (maintain P now i d)). \<exists>p. op = UpdateCam i p"
    using True by (auto simp: maintain_fixed snd_blocks mark_removed_def split: if_splits)
  from ops_safe_updates [OF this assms(1), of "[]"] show ?thesis by simp
next
  case False
  define a where "a = snd (ensure_timestamp now i d)
      @ snd (ensure_confidence i (type_of d) (fst (ensure_timestamp now i d)))
      @ snd (ensure_expiresAt P now i (type_of d)
             (fst (ensure_confidence i (type_of d) (fst (ensure_timestamp now i d)))))
      @ snd (ensure_lastSeen now i (fst (ensure_expiresAt P now i (type_of d)
             (fst (ensure_confidence i (type_of d) (fst (ensure_timestamp now i d)))))))"
  have "truthy (fst (ensure_confidence i (type_of d) (fst (ensure_timestamp now i d))) FexpiresAt)
        \<or> valid_time (default_expiry P now d)"
    using pr False by (auto simp: printable_def fst_ensure_timestamp fst_ensure_confidence)
  then have upd: "\<forall>op \<in> set a. \<exists>p. op = UpdateCam i p"
    unfolding a_def
    by (auto simp: snd_ensure_timestamp snd_ensure_confidence snd_ensure_lastSeen
          snd_ensure_expiresAt default_expiry_mem split: if_splits)
  have "snd (maintain P now i d) = a @ preserve_patch P now i (count_of P d) (fst (maintain P now i d))"
    using False by (simp add: maintain_other Let_def a_def)
  then show ?thesis
    using ops_safe_updates [OF upd assms(1)] preserve_patch_safe [OF assms(1) vt] by simp
qed

lemma maintain_no_throw:
  "printable P now d \<Longrightarrow> valid_time (now + PRESERVE_HOTSPOT_DAYS * MS_DAY) \<Longrightarrow>
   Throw \<notin> set (snd (maintain P now i d))"
  using maintain_safe [of i "{i}" P now d] ops_safe_no_throw by blast

lemma maintain_deleted_by: "deleted_by (snd (maintain P now i d)) \<subseteq> {i}"
  using maintain_target [of _ P now i d] by (fastforce simp: deleted_by_def)

lemma maintain_mem_lat [simp]: "fst (maintain P now i d) Flat = d Flat"
  by (cases "type_of d = JStr ''fixed_camera''")
     (simp_all add: maintain_fixed maintain_other Let_def fst_blocks)

lemma maintain_mem_lon [simp]: "fst (maintain P now i d) Flon = d Flon"
  by (cases "type_of d = JStr ''fixed_camera''")
     (simp_all add: maintain_fixed maintain_other Let_def fst_blocks)

lemma maintain_mem_type [simp]: "fst (maintain P now i d) Ftype = d Ftype"
  by (cases "type_of d = JStr ''fixed_camera''")
     (simp_all add: maintain_fixed maintain_other Let_def fst_blocks)

lemma maintain_mem_timestamp:
  "fst (maintain P now i d) Ftimestamp =
     (if truthy (d Ftimestamp) then d Ftimestamp else JNum (Fin now))"
  by (cases "type_of d = JStr ''fixed_camera''")
     (simp_all add: maintain_fixed maintain_other Let_def fst_blocks)

lemma maintain_mem_hotspot:
  "fst (maintain P now i d) Fhotspot =
     (if type_of d = JStr ''fixed_camera'' \<and> \<not> truthy (d Fhotspot) then JBool True
      else d Fhotspot)"
  by (cases "type_of d = JStr ''fixed_camera''")
     (simp_all add: maintain_fixed maintain_other Let_def fst_blocks)

lemma preserve_patch_delete:
  "DeleteCam j \<in> set (preserve_patch P now i c d) \<Longrightarrow>
   number_or (ToNumber P (d Ftimestamp)) 0 < hotspotWindowCutoff now \<and> \<not> truthy (d Fhotspot)"
  by (auto simp: preserve_patch_def Let_def mark_removed_def split: if_splits)

lemma maintain_delete:
  assumes "DeleteCam j \<in> set (snd (maintain P now i d))"
  shows "type_of d \<noteq> JStr ''fixed_camera''" "j = i"
    "timestamp_ms P now d < hotspotWindowCutoff now" "\<not> truthy (d Fhotspot)"
proof -
  show fx: "type_of d \<noteq> JStr ''fixed_camera''"
    using assms by (auto simp: maintain_fixed snd_blocks mark_removed_def split: if_splits)
  show "j = i" using maintain_target [OF assms] by simp
  have "DeleteCam j \<in> set (preserve_patch P now i (count_of P d) (fst (maintain P now i d)))"
    using assms fx by (auto simp: maintain_other Let_def snd_blocks split: if_splits)
  from preserve_patch_delete [OF this]
  show "timestamp_ms P now d < hotspotWindowCutoff now" "\<not> truthy (d Fhotspot)"
    using fx by (simp_all add: maintain_mem_timestamp maintain_mem_hotspot timestamp_ms_def)
qed

lemma recent_mobile_timestamp_ms:
  "recent_mobile P c (fst (maintain P now i d)) \<Longrightarrow> \<not> timestamp_ms P now d < c"
  by (simp add: recent_mobile_def maintain_mem_timestamp timestamp_ms_def number_or_ge)

lemma maintain_delete_not_recent:
  "DeleteCam j \<in> set (snd (maintain P now i d)) \<Longrightarrow>
   \<not> recent_mobile P (hotspotWindowCutoff now) (fst (maintain P now i d))"
  using maintain_delete(3) recent_mobile_timestamp_ms by blast

subsection \<open>The first pass as a whole\<close>

lemma per_doc_pass_safe:
  "distinct (map fst cams) \<Longrightarrow> fst ` set cams \<subseteq> S \<Longrightarrow>
   \<forall>c \<in> set cams. printable P now (snd c) \<Longrightarrow>
   valid_time (now + PRESERVE_HOTSPOT_DAYS * MS_DAY) \<Longrightarrow>
   ops_safe S (snd (per_doc_pass P now cams))"
proof (induction cams arbitrary: S)
  case Nil
  then show ?case by simp
next
  case (Cons c cams)
  obtain i d where c: "c = (i, d)" by (cases c)
  have i: "i \<in> S" and rest: "fst ` set cams \<subseteq> S - {i}" and dist: "distinct (map fst cams)"
    and pr: "printable P now d" "\<forall>c \<in> set cams. printable P now (snd c)"
    using Cons.prems c by auto
  have "fst ` set cams \<subseteq> S - deleted_by (snd (maintain P now i d))"
    using rest maintain_deleted_by [of P now i d] by auto
  from Cons.IH [OF dist this pr(2) Cons.prems(4)] maintain_safe [OF i pr(1) Cons.prems(4)]
  show ?case by (simp add: c split_def Let_def ops_safe_append)
qed

lemma per_doc_pass_mem:
  "op \<in> set (snd (per_doc_pass P now cams)) \<longleftrightarrow>
   (\<exists>c \<in> set cams. op \<in> set (snd (maintain P now (fst c) (snd c))))"
  by (auto simp: snd_per_doc_pass)

lemma ops_for_append: "ops_for i (a @ b) = ops_for i a @ ops_for i b"
  by (simp add: ops_for_def)

lemma ops_for_maintain:
  "j \<noteq> i \<Longrightarrow> ops_for j (snd (maintain P now i d)) = []"
  using maintain_target [of _ P now i d]
  by (fastforce simp: ops_for_def filter_empty_conv)

lemma doc_after_ops_for:
  "\<forall>op \<in> set ops. cam_target op = Some i \<or> op = Throw \<Longrightarrow>
   doc_after (ops_for i ops) s = doc_after ops s"
proof (induction ops arbitrary: s)
  case Nil
  then show ?case by (simp add: ops_for_def)
next
  case (Cons op ops)
  then show ?case by (cases op) (auto simp: ops_for_def)
qed

lemma doc_after_ops_for_maintain:
  "doc_after (ops_for i (snd (maintain P now i d))) s = doc_after (snd (maintain P now i d)) s"
  using maintain_target by (intro doc_after_ops_for) blast

lemma ops_for_per_doc_pass_absent:
  assumes "i \<notin> fst ` set cams"
  shows "ops_for i (snd (per_doc_pass P now cams)) = []"
proof -
  have "cam_target op \<noteq> Some i" if "op \<in> set (snd (per_doc_pass P now cams))" for op
  proof -
    from that obtain c where c: "c \<in> set cams" "op \<in> set (snd (maintain P now (fst c) (snd c)))"
      by (auto simp: per_doc_pass_mem)
    then have "cam_target op = Some (fst c) \<or> op = Throw" by (simp add: maintain_target)
    moreover have "fst c \<noteq> i" using c(1) assms by auto
    ultimately show ?thesis by auto
  qed
  then show ?thesis by (auto simp: ops_for_def filter_empty_conv)
qed

lemma ops_for_per_doc_pass:
  "distinct (map fst cams) \<Longrightarrow> (i, d) \<in> set cams \<Longrightarrow>
   ops_for i (snd (per_doc_pass P now cams)) = ops_for i (snd (maintain P now i d))"
proof (induction cams)
  case Nil
  then show ?case by simp
next
  case (Cons c cams)
  obtain j e where c: "c = (j, e)" by (cases c)
  show ?case
  proof (cases "(i, d) = c")
    case True
    then have "i \<notin> fst ` set cams" using Cons.prems(1) by force
    then have "ops_for i (snd (per_doc_pass P now cams)) = []"
      by (rule ops_for_per_doc_pass_absent)
    then show ?thesis using True c
      by (auto simp: split_def Let_def ops_for_append)
  next
    case False
    then have mem: "(i, d) \<in> set cams" using Cons.prems(2) by simp
    then have "i \<noteq> j" using Cons.prems(1) c by force
    then show ?thesis using Cons.IH mem Cons.prems(1) c
      by (simp add: split_def Let_def ops_for_append ops_for_maintain)
  qed
qed

lemma doc_after_append: "doc_after (a @ b) s = doc_after b (doc_after a s)"
  by (induction a s rule: doc_after.induct) auto

lemma doc_after_None [simp]: "doc_after ops None = None"
  by (induction ops "None :: doc option" rule: doc_after.induct) auto

subsection \<open>The second pass\<close>

lemma promotion_is_promotion: "is_promotion (fst n) (promotion P t n)"
  by (simp add: is_promotion_def promotion_def Let_def)

lemma promote_all_mem:
  "op \<in> set (fst (promote_all P t ns)) \<Longrightarrow>
   \<exists>n \<in> set ns. \<not> is_report_id (fst n) \<and> (\<exists>t'. op = promotion P t' n)"
  by (induction ns arbitrary: t) (auto simp: split_def Let_def split: if_splits)

lemma promote_all_complete:
  "n \<in> set ns \<Longrightarrow> \<not> is_report_id (fst n) \<Longrightarrow> \<exists>t'. promotion P t' n \<in> set (fst (promote_all P t ns))"
proof (induction ns arbitrary: t)
  case Nil
  then show ?case by simp
next
  case (Cons m ns)
  show ?case
  proof (cases "n = m")
    case True
    then show ?thesis using Cons.prems by (auto simp: split_def Let_def)
  next
    case False
    then have "n \<in> set ns" using Cons.prems by simp
    from Cons.IH [OF this Cons.prems(2)] show ?thesis
      by (cases "is_report_id (fst m)") (auto simp: split_def Let_def)
  qed
qed

text \<open>The filter returns the neighbours, or throws.\<close>

lemma nearby_Some: "nearby P b docs = Some nb \<Longrightarrow> nb = neighbours P b docs"
proof (induction docs arbitrary: nb)
  case Nil
  then show ?case by (simp add: neighbours_def)
next
  case (Cons n docs)
  show ?case
  proof (cases "has_point (snd n)")
    case False
    then show ?thesis using Cons by (simp add: neighbours_def)
  next
    case True
    with Cons.prems obtain x rest where
      x: "getDistance P (b Flat, b Flon) (snd n Flat, snd n Flon) = Some x"
         "nearby P b docs = Some rest"
         "nb = (if num_le x (Fin HOTSPOT_RADIUS_M) then n # rest else rest)"
      by (auto split: option.splits)
    from Cons.IH [OF x(2)] x(1,3) True show ?thesis
      by (simp add: neighbours_def within_radius_def)
  qed
qed

lemma nearby_returns:
  "\<forall>n \<in> set docs. has_point (snd n) \<longrightarrow>
      getDistance P (b Flat, b Flon) (snd n Flat, snd n Flon) \<noteq> None \<Longrightarrow>
   nearby P b docs = Some (neighbours P b docs)"
proof (induction docs)
  case Nil
  then show ?case by (simp add: neighbours_def)
next
  case (Cons n docs)
  then show ?case
    by (cases "has_point (snd n)") (auto simp: neighbours_def within_radius_def)
qed

lemma neighbours_subset:
  "n \<in> set (neighbours P b docs) \<Longrightarrow> n \<in> set docs \<and> has_point (snd n)"
  by (simp add: neighbours_def)

lemma hotspot_pass_step:
  "hotspot_pass P docs t (base # bases) =
     (if \<not> has_point (snd base) \<or> truthy (snd base Fhotspot) then hotspot_pass P docs t bases
      else if nearby P (snd base) docs = None then [Throw]
      else if qualifies P docs base then
        fst (promote_all P t (neighbours P (snd base) docs))
        @ [SetHotspot (hotspotId_of P (snd base))
             (hotspotDoc_of P (snd (promote_all P t (neighbours P (snd base) docs))) (snd base)
                (neighbours P (snd base) docs))]
        @ hotspot_pass P docs (Suc (snd (promote_all P t (neighbours P (snd base) docs)))) bases
      else hotspot_pass P docs t bases)"
  by (auto simp: qualifies_def Let_def split_def dest: nearby_Some split: option.splits)

declare hotspot_pass.simps(2) [simp del]

lemma hotspot_pass_mem:
  "op \<in> set (hotspot_pass P docs t bases) \<Longrightarrow>
   op = Throw \<or>
   (\<exists>base \<in> set bases. qualifies P docs base \<and>
     ((\<exists>n \<in> set (neighbours P (snd base) docs).
         \<not> is_report_id (fst n) \<and> (\<exists>t'. op = promotion P t' n))
      \<or> (\<exists>t'. op = SetHotspot (hotspotId_of P (snd base))
                      (hotspotDoc_of P t' (snd base) (neighbours P (snd base) docs)))))"
proof (induction bases arbitrary: t)
  case Nil
  then show ?case by simp
next
  case (Cons base bases)
  let ?nb = "neighbours P (snd base) docs"
  consider (skip) "hotspot_pass P docs t (base # bases) = hotspot_pass P docs t bases"
    | (throw) "hotspot_pass P docs t (base # bases) = [Throw]"
    | (seed) "qualifies P docs base"
        "hotspot_pass P docs t (base # bases) =
           fst (promote_all P t ?nb)
           @ [SetHotspot (hotspotId_of P (snd base))
                (hotspotDoc_of P (snd (promote_all P t ?nb)) (snd base) ?nb)]
           @ hotspot_pass P docs (Suc (snd (promote_all P t ?nb))) bases"
    using hotspot_pass_step [of P docs t base bases] by (auto split: if_splits)
  then show ?case
  proof cases
    case skip
    with Cons show ?thesis by auto
  next
    case throw
    with Cons.prems show ?thesis by simp
  next
    case seed
    from Cons.prems [unfolded seed(2)] consider
        "op \<in> set (fst (promote_all P t ?nb))"
      | "op = SetHotspot (hotspotId_of P (snd base))
             (hotspotDoc_of P (snd (promote_all P t ?nb)) (snd base) ?nb)"
      | "op \<in> set (hotspot_pass P docs (Suc (snd (promote_all P t ?nb))) bases)"
      by auto
    then show ?thesis
    proof cases
      case 1
      from promote_all_mem [OF this] seed(1) show ?thesis by auto
    next
      case 2
      then show ?thesis using seed(1) by auto
    next
      case 3
      from Cons.IH [OF this] show ?thesis by auto
    qed
  qed
qed

lemma hotspot_pass_complete:
  assumes "base \<in> set bases" "qualifies P docs base"
    and nt: "\<forall>b \<in> set bases. has_point (snd b) \<longrightarrow> nearby P (snd b) docs \<noteq> None"
  shows "(\<forall>n \<in> set (neighbours P (snd base) docs). \<not> is_report_id (fst n) \<longrightarrow>
            (\<exists>t'. promotion P t' n \<in> set (hotspot_pass P docs t bases)))
         \<and> (\<exists>t'. SetHotspot (hotspotId_of P (snd base))
                   (hotspotDoc_of P t' (snd base) (neighbours P (snd base) docs))
                 \<in> set (hotspot_pass P docs t bases))"
  using assms(1) nt
proof (induction bases arbitrary: t)
  case Nil
  then show ?case by simp
next
  case (Cons b bases)
  let ?nb = "neighbours P (snd b) docs"
  have nt': "\<forall>b \<in> set bases. has_point (snd b) \<longrightarrow> nearby P (snd b) docs \<noteq> None"
    using Cons.prems(2) by simp
  show ?case
  proof (cases "qualifies P docs b")
    case False
    then have eq: "hotspot_pass P docs t (b # bases) = hotspot_pass P docs t bases"
      using Cons.prems(2) by (auto simp: hotspot_pass_step)
    have "base \<in> set bases" using Cons.prems False assms(2) by auto
    from Cons.IH [OF this nt'] show ?thesis unfolding eq .
  next
    case True
    then have eq: "hotspot_pass P docs t (b # bases) =
        fst (promote_all P t ?nb)
        @ [SetHotspot (hotspotId_of P (snd b))
             (hotspotDoc_of P (snd (promote_all P t ?nb)) (snd b) ?nb)]
        @ hotspot_pass P docs (Suc (snd (promote_all P t ?nb))) bases"
      using Cons.prems(2) by (auto simp: hotspot_pass_step qualifies_def)
    show ?thesis
    proof (cases "base = b")
      case True
      show ?thesis unfolding eq True
        using promote_all_complete [of _ ?nb P t] by fastforce
    next
      case False
      then have "base \<in> set bases" using Cons.prems by simp
      from Cons.IH [OF this nt', of "Suc (snd (promote_all P t ?nb))"]
      show ?thesis unfolding eq by fastforce
    qed
  qed
qed

lemma hotspot_pass_no_throw:
  "\<forall>b \<in> set bases. has_point (snd b) \<longrightarrow> nearby P (snd b) docs \<noteq> None \<Longrightarrow>
   Throw \<notin> set (hotspot_pass P docs t bases)"
proof (induction bases arbitrary: t)
  case Nil
  then show ?case by simp
next
  case (Cons b bases)
  have "Throw \<notin> set (fst (promote_all P t' ns))" for t' ns
    using promote_all_mem [of Throw P t' ns] by (auto simp: promotion_def Let_def)
  with Cons show ?case
    by (auto simp: hotspot_pass_step)
qed

lemma reportDocs_ids: "n \<in> set (reportDocs r) \<Longrightarrow> is_report_id (fst n)"
  by (auto simp: reportDocs_def is_report_id_def split: option.splits)

subsection \<open>The run\<close>

lemma main_eq:
  "main P r w = exec_ops (log_date (clock P 0) @ snd (pass1 P w) @ pass2 P r w) w"
  by (simp add: main_def pass1_def pass2_def candidates_def split_def Let_def)

lemma main_run_pass1: "main P r w = exec_ops (pass2 P r w) (run_pass1 P w)"
  by (simp add: main_eq run_pass1_def exec_ops_append)

lemma fst_pass1:
  "fst (pass1 P w) = map (\<lambda>c. (fst c, fst (maintain P (clock P 0) (fst c) (snd c)))) (cameras w)"
  by (simp add: pass1_def fst_per_doc_pass)

lemma pass1_entry:
  "(i, d') \<in> set (fst (pass1 P w)) \<Longrightarrow>
   \<exists>d. (i, d) \<in> set (cameras w) \<and> d' = fst (maintain P (clock P 0) i d)"
  by (auto simp: fst_pass1)

lemma pass1_delete:
  assumes "distinct (map fst (cameras w))" "DeleteCam i \<in> set (snd (pass1 P w))"
    "(i, d) \<in> set (cameras w)"
  shows "DeleteCam i \<in> set (snd (maintain P (clock P 0) i d))"
proof -
  from assms(2) obtain c where c: "c \<in> set (cameras w)"
      "DeleteCam i \<in> set (snd (maintain P (clock P 0) (fst c) (snd c)))"
    by (auto simp: pass1_def per_doc_pass_mem)
  from maintain_target [OF c(2)] have "fst c = i" by simp
  with c(1) assms(1,3) have "snd c = d"
    using map_of_is_SomeI [OF assms(1), of "fst c" "snd c"] map_of_is_SomeI [OF assms(1,3)]
    by (cases c) auto
  with c(2) \<open>fst c = i\<close> show ?thesis by simp
qed

lemma candidates_mem:
  assumes "n \<in> set (candidates P r w)" "\<not> is_report_id (fst n)"
  shows "n \<in> set (fst (pass1 P w))"
    "recent_mobile P (hotspotWindowCutoff (clock P 0)) (snd n)"
  using assms reportDocs_ids [of n r] by (auto simp: candidates_def mobileDocs_def)

lemma pass2_mem:
  assumes "op \<in> set (pass2 P r w)"
  shows "(\<exists>base \<in> set (candidates P r w). qualifies P (candidates P r w) base \<and>
            (\<exists>n \<in> set (neighbours P (snd base) (candidates P r w)).
               \<not> is_report_id (fst n) \<and> (\<exists>t'. op = promotion P t' n)))
         \<or> (\<exists>k h. op = SetHotspot k h) \<or> op = Throw"
  using hotspot_pass_mem [OF assms [unfolded pass2_def]] by blast

lemma pass2_update:
  assumes "UpdateCam i p \<in> set (pass2 P r w)"
  shows "\<not> is_report_id i" "is_promotion i (UpdateCam i p)"
    "\<exists>d'. (i, d') \<in> set (fst (pass1 P w))
          \<and> recent_mobile P (hotspotWindowCutoff (clock P 0)) d' \<and> has_point d'"
proof -
  from pass2_mem [OF assms] obtain base n t' where
    n: "n \<in> set (neighbours P (snd base) (candidates P r w))" "\<not> is_report_id (fst n)"
       "UpdateCam i p = promotion P t' n"
    by auto
  from n(3) have i: "fst n = i" by (simp add: promotion_def Let_def)
  show "\<not> is_report_id i" using n(2) i by simp
  show "is_promotion i (UpdateCam i p)" using promotion_is_promotion [of n P t'] n(3) i by simp
  from neighbours_subset [OF n(1)] have "n \<in> set (candidates P r w)" "has_point (snd n)" by auto
  with candidates_mem [OF this(1) n(2)] i
  show "\<exists>d'. (i, d') \<in> set (fst (pass1 P w))
          \<and> recent_mobile P (hotspotWindowCutoff (clock P 0)) d' \<and> has_point d'"
    by (metis prod.collapse)
qed

lemma pass2_no_delete: "DeleteCam i \<notin> set (pass2 P r w)"
  using pass2_mem [of "DeleteCam i" P r w] by (auto simp: promotion_def Let_def)

text \<open>A document the first pass deletes is not written by the second pass.\<close>

lemma pass2_update_not_deleted:
  assumes dist: "distinct (map fst (cameras w))"
    and upd: "UpdateCam i p \<in> set (pass2 P r w)"
  shows "i \<in> fst ` set (cameras w)" "DeleteCam i \<notin> set (snd (pass1 P w))"
proof -
  from pass2_update(3) [OF upd] obtain d' where
    d': "(i, d') \<in> set (fst (pass1 P w))" "recent_mobile P (hotspotWindowCutoff (clock P 0)) d'"
    by auto
  from pass1_entry [OF d'(1)] obtain d where
    d: "(i, d) \<in> set (cameras w)" "d' = fst (maintain P (clock P 0) i d)" by auto
  show "i \<in> fst ` set (cameras w)" using d(1) by force
  show "DeleteCam i \<notin> set (snd (pass1 P w))"
  proof
    assume "DeleteCam i \<in> set (snd (pass1 P w))"
    from pass1_delete [OF dist this d(1)] maintain_delete_not_recent d'(2) d(2)
    show False by blast
  qed
qed

lemma ops_safe_updates_present:
  "\<forall>op \<in> set ops. (\<forall>i p. op = UpdateCam i p \<longrightarrow> i \<in> S) \<and> (\<forall>i. op \<noteq> DeleteCam i) \<and> op \<noteq> Throw
   \<Longrightarrow> ops_safe S ops"
proof (induction ops)
  case Nil
  then show ?case by simp
next
  case (Cons op ops)
  then show ?case by (cases op) auto
qed

lemma dom_lookup: "dom (lookup w) = fst ` set (cameras w)"
  by (simp add: lookup_def [abs_def] dom_map_of_conv_image_fst)

lemma lookup_Some: "distinct (map fst (cameras w)) \<Longrightarrow> (i, d) \<in> set (cameras w) \<Longrightarrow> lookup w i = Some d"
  by (simp add: lookup_def)

text \<open>
  The candidates have the points of the stored documents and of the raw reports, so the
  filter of the second loop returns when these are locatable.
\<close>

lemma candidates_point:
  assumes "n \<in> set (candidates P r w)"
  shows "\<exists>d \<in> set (map snd (cameras w) @ map snd (reportDocs r)).
           snd n Flat = d Flat \<and> snd n Flon = d Flon"
proof (cases "n \<in> set (reportDocs r)")
  case True
  then show ?thesis by force
next
  case False
  with assms have "n \<in> set (fst (pass1 P w))" by (auto simp: candidates_def mobileDocs_def)
  then obtain c where "c \<in> set (cameras w)"
      "n = (fst c, fst (maintain P (clock P 0) (fst c) (snd c)))"
    by (auto simp: fst_pass1)
  then show ?thesis by force
qed

lemma candidates_nearby:
  assumes loc: "locatable P (map snd (cameras w) @ map snd (reportDocs r))"
    and b: "b \<in> set (candidates P r w)" "has_point (snd b)"
  shows "nearby P (snd b) (candidates P r w) = Some (neighbours P (snd b) (candidates P r w))"
proof (rule nearby_returns, intro ballI impI)
  fix n assume n: "n \<in> set (candidates P r w)" "has_point (snd n)"
  from candidates_point [OF b(1)] candidates_point [OF n(1)] obtain d e where
    "d \<in> set (map snd (cameras w) @ map snd (reportDocs r))"
    "snd b Flat = d Flat" "snd b Flon = d Flon"
    "e \<in> set (map snd (cameras w) @ map snd (reportDocs r))"
    "snd n Flat = e Flat" "snd n Flon = e Flon"
    by blast
  with loc b(2) n(2)
  show "getDistance P (snd b Flat, snd b Flon) (snd n Flat, snd n Flon) \<noteq> None"
    unfolding locatable_def has_point_def by metis
qed

lemma pass2_no_throw:
  "locatable P (map snd (cameras w) @ map snd (reportDocs r)) \<Longrightarrow> Throw \<notin> set (pass2 P r w)"
  unfolding pass2_def using candidates_nearby by (intro hotspot_pass_no_throw) auto

text \<open>A run on a clean store does not throw.\<close>

lemma pass1_safe:
  assumes "distinct (map fst (cameras w))" "printable_store P w"
  shows "ops_safe (dom (lookup w)) (log_date (clock P 0) @ snd (pass1 P w))"
  using assms unfolding pass1_def printable_store_def printable_clock_def
  by (simp add: per_doc_pass_safe dom_lookup)

lemma main_safe:
  assumes "distinct (map fst (cameras w))" "clean P r w"
  shows "ops_safe (dom (lookup w)) (log_date (clock P 0) @ snd (pass1 P w) @ pass2 P r w)"
proof -
  have ps: "printable_store P w"
    and loc: "locatable P (map snd (cameras w) @ map snd (reportDocs r))"
    using assms(2) by (simp_all add: clean_def)
  have vt: "log_date (clock P 0) = []"
    using ps by (simp add: printable_store_def printable_clock_def)
  have "ops_safe (dom (lookup w)) (snd (pass1 P w))"
    using pass1_safe [OF assms(1) ps] by (simp add: vt)
  moreover have "ops_safe (dom (lookup w) - deleted_by (snd (pass1 P w))) (pass2 P r w)"
    using pass2_update_not_deleted [OF assms(1)] pass2_no_delete pass2_no_throw [OF loc]
    by (intro ops_safe_updates_present) (auto simp: dom_lookup deleted_by_def)
  ultimately show ?thesis by (simp add: ops_safe_append vt)
qed

lemma main_not_failed:
  "distinct (map fst (cameras w)) \<Longrightarrow> \<not> failed w \<Longrightarrow> clean P r w \<Longrightarrow> \<not> failed (main P r w)"
  unfolding main_eq by (rule ops_safe_not_failed) (simp_all add: main_safe)

lemma run_pass1_not_failed:
  "distinct (map fst (cameras w)) \<Longrightarrow> \<not> failed w \<Longrightarrow> printable_store P w \<Longrightarrow>
   \<not> failed (run_pass1 P w)"
  unfolding run_pass1_def by (rule ops_safe_not_failed) (simp_all add: pass1_safe)

lemma ops_for_log_date [simp]: "ops_for i (log_date t) = []"
  by (simp add: ops_for_def log_date_def)

lemma run_pass1_lookup:
  assumes "distinct (map fst (cameras w))" "\<not> failed w" "(i, d) \<in> set (cameras w)"
    and "printable_store P w"
  shows "lookup (run_pass1 P w) i = doc_after (snd (maintain P (clock P 0) i d)) (Some d)"
  using lookup_exec_ops [OF run_pass1_not_failed [OF assms(1,2,4), unfolded run_pass1_def], of i]
    ops_for_per_doc_pass [OF assms(1,3)] lookup_Some [OF assms(1,3)]
  by (simp add: run_pass1_def pass1_def ops_for_append doc_after_ops_for_maintain)

lemma main_lookup:
  assumes "distinct (map fst (cameras w))" "\<not> failed w" "(i, d) \<in> set (cameras w)"
    and "clean P r w"
  shows "lookup (main P r w) i =
     doc_after (ops_for i (pass2 P r w)) (doc_after (snd (maintain P (clock P 0) i d)) (Some d))"
  using lookup_exec_ops [OF main_not_failed [OF assms(1,2,4), unfolded main_eq], of i]
    ops_for_per_doc_pass [OF assms(1,3)] lookup_Some [OF assms(1,3)]
  by (simp add: main_eq pass1_def ops_for_append doc_after_append doc_after_ops_for_maintain)

text \<open>
  When the first loop gets through the iterations of the documents listed before \<open>i\<close> and
  through the iteration of \<open>i\<close> without a throw, the store holds what that iteration made
  of \<open>i\<close>, whatever happens later in the loop.
\<close>

lemma run_pass1_reached:
  assumes dist: "distinct (map fst (cameras w))" and ok: "\<not> failed w"
    and clk: "printable_clock P"
    and split: "cameras w = pre @ (i, d) # post"
    and pre: "\<forall>c \<in> set pre. printable P (clock P 0) (snd c)"
    and own: "printable P (clock P 0) d"
  shows "lookup (run_pass1 P w) i = doc_after (snd (maintain P (clock P 0) i d)) (Some d)"
proof -
  let ?now = "clock P 0"
  let ?a = "snd (per_doc_pass P ?now (pre @ [(i, d)]))"
  let ?b = "snd (per_doc_pass P ?now post)"
  have vt: "valid_time ?now" "valid_time (?now + PRESERVE_HOTSPOT_DAYS * MS_DAY)"
    using clk by (simp_all add: printable_clock_def)
  have ops: "snd (pass1 P w) = ?a @ ?b"
    by (simp add: pass1_def split snd_per_doc_pass)
  have d1: "distinct (map fst (pre @ [(i, d)]))" and ipost: "i \<notin> fst ` set post"
    using dist by (auto simp: split)
  have mem: "(i, d) \<in> set (pre @ [(i, d)])" by simp
  have sub: "fst ` set (pre @ [(i, d)]) \<subseteq> dom (lookup w)"
    by (auto simp: dom_lookup split)
  have "ops_safe (dom (lookup w)) ?a"
    using pre own vt(2) by (intro per_doc_pass_safe [OF d1 sub]) auto
  from ops_safe_not_failed [OF ok this] have nf: "\<not> failed (exec_ops ?a w)" .
  have "(i, d) \<in> set (cameras w)" by (simp add: split)
  from lookup_exec_ops [OF nf, of i] ops_for_per_doc_pass [OF d1 mem] lookup_Some [OF dist this]
  have a: "lookup (exec_ops ?a w) i = doc_after (snd (maintain P ?now i d)) (Some d)"
    by (simp add: doc_after_ops_for_maintain)
  have "\<forall>op \<in> set ?b. cam_target op \<noteq> Some i"
  proof
    fix op assume "op \<in> set ?b"
    then obtain c where c: "c \<in> set post" "op \<in> set (snd (maintain P ?now (fst c) (snd c)))"
      by (auto simp: per_doc_pass_mem)
    from maintain_target [OF c(2)] c(1) ipost show "cam_target op \<noteq> Some i" by auto
  qed
  from lookup_exec_ops_other [OF this] a show ?thesis
    by (simp add: run_pass1_def ops exec_ops_append vt(1))
qed

subsection \<open>The stored document after the loop body\<close>

lemma apply_patch_simps [simp]:
  "apply_patch [] d = d"
  "apply_patch ((f, v) # p) d = apply_patch p (d(f := v))"
  by (simp_all add: apply_patch_def)

lemma maintain_mem_other:
  "f \<notin> {Ftimestamp, Fconfidence, Fhotspot, FexpiresAt, FlastSeen} \<Longrightarrow>
   fst (maintain P now i d) f = d f"
  by (cases "type_of d = JStr ''fixed_camera''")
     (simp_all add: maintain_fixed maintain_other Let_def fst_blocks)

lemma maintain_mem_expiresAt:
  "truthy (d FexpiresAt) \<Longrightarrow> fst (maintain P now i d) FexpiresAt = d FexpiresAt"
  by (cases "type_of d = JStr ''fixed_camera''")
     (simp_all add: maintain_fixed maintain_other Let_def fst_blocks)

lemma after_ensure_timestamp:
  "doc_after (snd (ensure_timestamp now i d)) (Some d) = Some (fst (ensure_timestamp now i d))"
  by (simp add: fst_blocks snd_blocks)

lemma after_ensure_confidence:
  "doc_after (snd (ensure_confidence i ty d)) (Some d) = Some (fst (ensure_confidence i ty d))"
  by (simp add: fst_blocks snd_blocks)

lemma after_ensure_expiresAt:
  "doc_after (snd (ensure_expiresAt P now i ty d)) (Some d) = Some (fst (ensure_expiresAt P now i ty d))"
  by (simp add: fst_blocks snd_blocks)

lemma after_ensure_lastSeen:
  "doc_after (snd (ensure_lastSeen now i d)) (Some d) = Some (fst (ensure_lastSeen now i d))"
  by (simp add: fst_blocks snd_blocks)

lemmas after_blocks = after_ensure_timestamp after_ensure_confidence after_ensure_expiresAt
  after_ensure_lastSeen

text \<open>
  For a mobile or other document the store holds the in-memory copy when the PATCH block
  starts; its single write, if any, then decides the outcome.
\<close>

lemma after_maintain_other:
  assumes "type_of d \<noteq> JStr ''fixed_camera''"
  shows "doc_after (snd (maintain P now i d)) (Some d) =
     doc_after (preserve_patch P now i (count_of P d) (fst (maintain P now i d)))
       (Some (fst (maintain P now i d)))"
  using assms by (simp add: maintain_other Let_def doc_after_append after_blocks)

lemma after_maintain_fixed:
  assumes "type_of d = JStr ''fixed_camera''"
  shows "doc_after (snd (maintain P now i d)) (Some d) =
     Some (if num_le (count_of P d) (Fin FIXED_REMOVE_THRESHOLD) \<and> \<not> truthy (d Fremoved)
           then (fst (maintain P now i d))
                  (Fremoved := JBool True, FremovedByWorker := JBool True,
                   FlastSeen := JNum (Fin now))
           else fst (maintain P now i d))"
proof -
  let ?d2 = "fst (ensure_confidence i (type_of d) (fst (ensure_timestamp now i d)))"
  have rm: "?d2 Fremoved = d Fremoved" by (simp add: fst_blocks)
  have "doc_after (snd (fixed_camera now i (count_of P d) ?d2)) (Some ?d2) =
     Some (if num_le (count_of P d) (Fin FIXED_REMOVE_THRESHOLD) \<and> \<not> truthy (d Fremoved)
           then (fst (fixed_camera now i (count_of P d) ?d2))
                  (Fremoved := JBool True, FremovedByWorker := JBool True,
                   FlastSeen := JNum (Fin now))
           else fst (fixed_camera now i (count_of P d) ?d2))"
    unfolding snd_fixed_camera fst_fixed_camera rm
    by (simp add: mark_removed_def)
  then show ?thesis
    using assms by (simp add: maintain_fixed doc_after_append after_blocks)
qed

lemma doc_after_preserve_patch:
  "doc_after (preserve_patch P now i c d) (Some d) =
     (let ts = number_or (ToNumber P (d Ftimestamp)) 0;
          hide = (if ts < hotspotWindowCutoff now then None
                  else if \<not> truthy (d Fremoved)
                  then Some (d(Fremoved := JBool True, FremovedByWorker := JBool True,
                               FlastSeen := JNum (Fin now)))
                  else Some d)
      in if \<not> truthy (d Fhotspot) \<and> num_le c (Fin 0) then hide
         else if truthy (d FexpiresAt) \<and> num_lt (ToNumber P (d FexpiresAt)) (Fin now) then
           (if \<not> truthy (d Fhotspot) then hide
            else Some (d(FexpiresAt := JNum (Fin (now + PRESERVE_HOTSPOT_DAYS * MS_DAY)),
                         FlastSeen := JNum (Fin now))))
         else Some d)"
  by (simp add: preserve_patch_def mark_removed_def Let_def)

subsection \<open>The stored document after the promotions it receives\<close>

lemma doc_after_promotions:
  assumes "\<forall>op \<in> set ops. is_promotion i op"
  shows "\<exists>s'. doc_after ops (Some s) = Some s'
     \<and> (\<forall>f. f \<notin> {Fhotspot, Fconfidence, FexpiresAt, FlastSeen} \<longrightarrow> s' f = s f)
     \<and> s' Fhotspot = (if ops = [] then s Fhotspot else JBool True)
     \<and> (ops = [] \<longrightarrow> s' = s)"
  using assms
proof (induction ops arbitrary: s)
  case Nil
  then show ?case by simp
next
  case (Cons op ops)
  from Cons.prems obtain c e l where
    op: "op = UpdateCam i [(Fhotspot, JBool True), (Fconfidence, c), (FexpiresAt, e), (FlastSeen, l)]"
    by (auto simp: is_promotion_def)
  let ?s1 = "s(Fhotspot := JBool True, Fconfidence := c, FexpiresAt := e, FlastSeen := l)"
  have "\<forall>op \<in> set ops. is_promotion i op" using Cons.prems by simp
  from Cons.IH [OF this, of ?s1] obtain s' where
    s': "doc_after ops (Some ?s1) = Some s'"
      "\<forall>f. f \<notin> {Fhotspot, Fconfidence, FexpiresAt, FlastSeen} \<longrightarrow> s' f = ?s1 f"
      "s' Fhotspot = (if ops = [] then ?s1 Fhotspot else JBool True)"
    by blast
  have step: "doc_after (op # ops) (Some s) = doc_after ops (Some ?s1)"
    by (simp add: op)
  have "\<forall>f. f \<notin> {Fhotspot, Fconfidence, FexpiresAt, FlastSeen} \<longrightarrow> s' f = s f"
    using s'(2) by simp
  moreover have "s' Fhotspot = JBool True"
    using s'(3) by simp
  ultimately show ?case
    unfolding step using s'(1) by simp
qed

lemma ops_for_pass2_promotions: "\<forall>op \<in> set (ops_for i (pass2 P r w)). is_promotion i op"
proof
  fix op assume "op \<in> set (ops_for i (pass2 P r w))"
  then have mem: "op \<in> set (pass2 P r w)" and tg: "cam_target op = Some i"
    by (auto simp: ops_for_def)
  show "is_promotion i op"
  proof (cases op)
    case (UpdateCam j p)
    then show ?thesis using mem tg pass2_update(2) by auto
  next
    case (DeleteCam j)
    then show ?thesis using mem pass2_no_delete by auto
  next
    case (SetHotspot k h)
    then show ?thesis using tg by simp
  next
    case Throw
    then show ?thesis using tg by simp
  qed
qed

text \<open>The second pass never deletes, and leaves every field but the four promoted ones.\<close>

lemma main_lookup_promoted:
  assumes "distinct (map fst (cameras w))" "\<not> failed w" "(i, d) \<in> set (cameras w)"
    and "doc_after (snd (maintain P (clock P 0) i d)) (Some d) = Some s"
    and cl: "clean P r w"
  shows "\<exists>s'. lookup (main P r w) i = Some s'
     \<and> (\<forall>f. f \<notin> {Fhotspot, Fconfidence, FexpiresAt, FlastSeen} \<longrightarrow> s' f = s f)
     \<and> s' Fhotspot = (if ops_for i (pass2 P r w) = [] then s Fhotspot else JBool True)
     \<and> (ops_for i (pass2 P r w) = [] \<longrightarrow> s' = s)"
  using doc_after_promotions [OF ops_for_pass2_promotions, of i P r w s]
  by (simp add: main_lookup [OF assms(1-3) cl] assms(4))

lemma main_lookup_deleted:
  assumes "distinct (map fst (cameras w))" "\<not> failed w" "(i, d) \<in> set (cameras w)"
    and "doc_after (snd (maintain P (clock P 0) i d)) (Some d) = None"
    and cl: "clean P r w"
  shows "lookup (main P r w) i = None"
  by (simp add: main_lookup [OF assms(1-3) cl] assms(4))

subsection \<open>Unfolding the definitions, for the concrete examples\<close>

text \<open>
  The platform and the data of the examples; the first pass; the second pass and the
  store.
\<close>

lemmas example_defs =
  P0_def decimal_literal_def is_digit_def flat_distance_def report_def store_def

lemmas pass1_eval =
  pass1_def maintain_def type_of_def js_or_def ensure_timestamp_def count_of_def
  ensure_confidence_def fixed_camera_def number_or_def lifetimeHours_def ensure_expiresAt_def
  ensure_lastSeen_def mark_removed_def preserve_patch_def hotspotWindowCutoff_def
  log_date_def valid_time_def
  MOBILE_EXPIRE_HOURS_def OTHER_EXPIRE_HOURS_def FIXED_REMOVE_THRESHOLD_def
  HOTSPOT_WINDOW_DAYS_def PRESERVE_HOTSPOT_DAYS_def MS_HOUR_def MS_DAY_def Let_def

lemmas run_eval =
  main_def reportDocs_def recent_mobile_def mobileDocs_def has_point_def hotspot_pass.simps
  plus20_def promotion_def is_report_id_def hotspotId_of_def hotspotDoc_of_def exec_ops_def
  HOTSPOT_RADIUS_M_def HOTSPOT_THRESHOLD_def run_pass1_def lookup_def stored_field_def
  AList.update_conv' AList.delete_conv'

subsection \<open>Documents that stay, documents that go\<close>

lemma doc_after_present:
  "(\<And>j. DeleteCam j \<notin> set ops) \<Longrightarrow> \<exists>s'. doc_after ops (Some s) = Some s'"
proof (induction ops arbitrary: s)
  case Nil
  then show ?case by simp
next
  case (Cons op ops)
  then show ?case by (cases op) auto
qed

lemma fixed_not_promoted:
  assumes "distinct (map fst (cameras w))" "(i, d) \<in> set (cameras w)"
    and "type_of d \<noteq> JStr ''mobile_camera''"
  shows "ops_for i (pass2 P r w) = []"
proof -
  have "op \<notin> set (pass2 P r w)" if tg: "cam_target op = Some i" for op
  proof (cases op)
    case (UpdateCam j p)
    with tg have j: "j = i" by simp
    show ?thesis
    proof
      assume "op \<in> set (pass2 P r w)"
      with UpdateCam j have "UpdateCam i p \<in> set (pass2 P r w)" by simp
      from pass2_update(3) [OF this] obtain d' where
        d': "(i, d') \<in> set (fst (pass1 P w))"
            "recent_mobile P (hotspotWindowCutoff (clock P 0)) d'" by auto
      from pass1_entry [OF d'(1)] obtain e where
        e: "(i, e) \<in> set (cameras w)" "d' = fst (maintain P (clock P 0) i e)" by auto
      have "e = d" using map_of_is_SomeI [OF assms(1) e(1)] map_of_is_SomeI [OF assms(1,2)] by simp
      with d'(2) e(2) assms(3) show False
        by (simp add: recent_mobile_def type_of_def)
    qed
  next
    case (DeleteCam j)
    then show ?thesis using pass2_no_delete by simp
  next
    case (SetHotspot k h)
    then show ?thesis using tg by simp
  next
    case Throw
    then show ?thesis using tg by simp
  qed
  then show ?thesis by (auto simp: ops_for_def filter_empty_conv)
qed

lemma maintain_mem_fixed:
  "type_of d = JStr ''fixed_camera'' \<Longrightarrow> f \<notin> {Ftimestamp, Fconfidence, Fhotspot} \<Longrightarrow>
   fst (maintain P now i d) f = d f"
  by (simp add: maintain_fixed fst_blocks)

lemma maintain_delete_after:
  assumes "DeleteCam j \<in> set (snd (maintain P now i d))"
  shows "doc_after (snd (maintain P now i d)) (Some d) = None"
proof -
  note del = maintain_delete [OF assms]
  have "DeleteCam j \<in> set (preserve_patch P now i (count_of P d) (fst (maintain P now i d)))"
    using assms del(1) by (auto simp: maintain_other Let_def snd_blocks split: if_splits)
  then have "preserve_patch P now i (count_of P d) (fst (maintain P now i d)) = [DeleteCam i]"
    using preserve_patch_cases [of P now i "count_of P d" "fst (maintain P now i d)"]
    by (auto simp: mark_removed_def)
  then show ?thesis
    by (simp add: after_maintain_other [OF del(1)])
qed

subsection \<open>Documents without a point\<close>

lemma zero_no_point:
  "d Flat = JNum (Fin 0) \<or> d Flon = JNum (Fin 0) \<or> d Ftimestamp = JNum (Fin 0) \<Longrightarrow> \<not> has_point d"
  by (auto simp: has_point_def)

text \<open>
  For the whole run: no write of the second pass addresses a stored camera document with
  latitude or longitude 0, which is after the run what the first pass made of it. (A
  stored timestamp of 0 is replaced by now in the first pass, so the detector does not
  see it.)
\<close>

lemma zero_coordinate_not_promoted:
  assumes "distinct (map fst (cameras w))" "(i, d) \<in> set (cameras w)"
    and "d Flat = JNum (Fin 0) \<or> d Flon = JNum (Fin 0)"
  shows "ops_for i (pass2 P r w) = []" "lookup (main P r w) i = lookup (run_pass1 P w) i"
proof -
  have "UpdateCam i p \<notin> set (pass2 P r w)" for p
  proof
    assume "UpdateCam i p \<in> set (pass2 P r w)"
    from pass2_update(3) [OF this] obtain d' where
      d': "(i, d') \<in> set (fst (pass1 P w))" "has_point d'" by auto
    from pass1_entry [OF d'(1)] obtain e where
      e: "(i, e) \<in> set (cameras w)" "d' = fst (maintain P (clock P 0) i e)" by auto
    have "e = d" using map_of_is_SomeI [OF assms(1) e(1)] map_of_is_SomeI [OF assms(1,2)] by simp
    with d'(2) e(2) assms(3) show False by (auto simp: has_point_def)
  qed
  then have none: "\<forall>op \<in> set (pass2 P r w). cam_target op \<noteq> Some i"
    using pass2_no_delete [of _ P r w]
    by (auto elim!: cam_target.elims)
  then show "ops_for i (pass2 P r w) = []"
    by (auto simp: ops_for_def filter_empty_conv)
  from lookup_exec_ops_other [OF none] show "lookup (main P r w) i = lookup (run_pass1 P w) i"
    by (simp add: main_run_pass1)
qed

subsection \<open>The count\<close>

text \<open>
  What \<open>count_of\<close> gives: 0 for an absent, null, empty or false field, the number itself for a
  number (NaN included), and the numeric value of the text for a non-empty text.
\<close>

lemma count_of_default:
  "d Fcount = JUndefined \<or> d Fcount = JNull \<or> d Fcount = JStr [] \<or> d Fcount = JBool False
   \<Longrightarrow> count_of P d = Fin 0"
  by (auto simp: count_of_def js_or_def)

lemma count_of_number: "d Fcount = JNum n \<Longrightarrow> count_of P d = n"
  by (simp add: count_of_def)

lemma count_of_string:
  "d Fcount = JStr s \<Longrightarrow> s \<noteq> [] \<Longrightarrow> count_of P d = StringToNumber P s"
  by (simp add: count_of_def js_or_def)

subsection \<open>Documents that are already removed\<close>

lemma maintain_no_removed_write:
  assumes "truthy (d Fremoved)" "op \<in> set (snd (maintain P now i d))"
  shows "\<not> writes_field Fremoved op \<and> \<not> writes_field FremovedByWorker op"
proof (cases "type_of d = JStr ''fixed_camera''")
  case True
  then show ?thesis using assms
    by (auto simp: maintain_fixed fst_blocks snd_blocks split: if_splits)
next
  case False
  let ?d4 = "fst (maintain P now i d)"
  have rm: "truthy (?d4 Fremoved)" using assms(1) by (simp add: maintain_mem_other)
  have pp: "\<not> writes_field Fremoved op' \<and> \<not> writes_field FremovedByWorker op'"
    if "op' \<in> set (preserve_patch P now i (count_of P d) ?d4)" for op'
    using that rm by (auto simp: preserve_patch_def Let_def split: if_splits)
  show ?thesis using assms(2) pp
    by (auto simp: maintain_other [OF False] Let_def snd_blocks split: if_splits)
qed

lemma maintain_nothing_due:
  assumes "truthy (d Fremoved)" "truthy (d Ftimestamp)"
    "d Fconfidence \<noteq> JUndefined" "d Fconfidence \<noteq> JNull"
    and "if type_of d = JStr ''fixed_camera'' then truthy (d Fhotspot)
         else truthy (d FexpiresAt) \<and> truthy (d FlastSeen)
              \<and> (if truthy (d Fhotspot) then \<not> num_lt (ToNumber P (d FexpiresAt)) (Fin now)
                  else \<not> timestamp_ms P now d < hotspotWindowCutoff now)"
  shows "maintain P now i d = (d, [])"
proof (cases "type_of d = JStr ''fixed_camera''")
  case True
  then show ?thesis using assms
    by (simp add: maintain_fixed fst_blocks snd_blocks)
next
  case False
  then show ?thesis using assms
    by (auto simp: maintain_other Let_def fst_blocks snd_blocks preserve_patch_def timestamp_ms_def
             split: if_splits)
qed

subsection \<open>Evaluating the loop body twice\<close>

lemma const_pos: "0 \<le> PRESERVE_HOTSPOT_DAYS * MS_DAY"
  by (simp add: PRESERVE_HOTSPOT_DAYS_def MS_DAY_def)

lemma type_of_upd [simp]: "f \<noteq> Ftype \<Longrightarrow> type_of (d(f := v)) = type_of d"
  by (simp add: type_of_def)

text \<open>
  The loop body evaluated on a stored document that an evaluation at the same instant has
  already produced leaves that document as it is. The one write it may still issue is the
  default expiry, again, when that default is 0 (a timestamp exactly the lifetime before
  the epoch), which the guard \<^verbatim>\<open>!d.expiresAt\<close> reads as missing.
\<close>

lemma maintain_twice_other:
  assumes nf: "type_of d \<noteq> JStr ''fixed_camera''" and now: "0 < now"
    and s: "doc_after (snd (maintain P now i d)) (Some d) = Some s"
  shows "doc_after (snd (maintain P now i s)) (Some s) = Some s"
    and "\<forall>op \<in> set (snd (maintain P now i s)). op = UpdateCam i [(FexpiresAt, JNum (Fin 0))]"
    and "printable P now s"
proof -
  let ?d4 = "fst (maintain P now i d)"
  let ?E = "JNum (Fin (now + PRESERVE_HOTSPOT_DAYS * MS_DAY))"
  have d4: "?d4 = fst (ensure_lastSeen now i (fst (ensure_expiresAt P now i (type_of d)
              (fst (ensure_confidence i (type_of d) (fst (ensure_timestamp now i d)))))))"
    using nf by (simp add: maintain_other Let_def)
  have ts: "truthy (?d4 Ftimestamp)"
    using now by (simp add: maintain_mem_timestamp)
  have cf: "?d4 Fconfidence \<noteq> JUndefined" "?d4 Fconfidence \<noteq> JNull"
    unfolding d4 by (auto simp: fst_blocks)
  have ls: "truthy (?d4 FlastSeen)"
    unfolding d4 using now by (auto simp: fst_blocks js_or_def)
  have ex: "\<not> truthy (?d4 FexpiresAt) \<Longrightarrow>
      ?d4 FexpiresAt = JNum (Fin (number_or (ToNumber P (?d4 Ftimestamp)) now
                                   + lifetimeHours (type_of d) * MS_HOUR))"
    unfolding d4 by (auto simp: fst_blocks split: if_splits)
  have ty: "type_of ?d4 = type_of d" by (simp add: type_of_def)
  have cnt: "count_of P ?d4 = count_of P d" by (simp add: count_of_def maintain_mem_other)
  (* the three possible outcomes of the first evaluation *)
  from s have s_cases:
    "s = ?d4 \<and> preserve_patch P now i (count_of P d) ?d4 = []
     \<or> s = ?d4(Fremoved := JBool True, FremovedByWorker := JBool True, FlastSeen := JNum (Fin now))
         \<and> preserve_patch P now i (count_of P d) ?d4 = [mark_removed now i]
     \<or> s = ?d4(FexpiresAt := ?E, FlastSeen := JNum (Fin now))
         \<and> preserve_patch P now i (count_of P d) ?d4
            = [UpdateCam i [(FexpiresAt, ?E), (FlastSeen, JNum (Fin now))]]
              @ log_date (now + PRESERVE_HOTSPOT_DAYS * MS_DAY)"
    unfolding after_maintain_other [OF nf]
    using preserve_patch_cases [of P now i "count_of P d" ?d4]
    by (auto simp: mark_removed_def)
  have Epos: "truthy ?E" "\<not> num_lt (ToNumber P ?E) (Fin now)"
    using now const_pos by auto
  have nowt: "truthy (JNum (Fin now))" using now by simp
  (* on s the defaults change nothing *)
  have s_ts: "truthy (s Ftimestamp)" "s Ftimestamp = ?d4 Ftimestamp"
    using s_cases ts by auto
  have s_cf: "s Fconfidence \<noteq> JUndefined" "s Fconfidence \<noteq> JNull"
    using s_cases cf by auto
  have s_ls: "truthy (s FlastSeen)"
    using s_cases ls nowt by auto
  have s_ty: "type_of s = type_of d"
    using s_cases ty by auto
  have s_cnt: "count_of P s = count_of P d"
    using s_cases cnt by auto
  have s_ex: "\<not> truthy (s FexpiresAt) \<Longrightarrow>
      s FexpiresAt = JNum (Fin (number_or (ToNumber P (s Ftimestamp)) now
                                   + lifetimeHours (type_of d) * MS_HOUR))"
    using s_cases ex Epos(1) s_ts(2) by auto
  have norm: "fst (maintain P now i s) = s"
  proof -
    have "fst (ensure_expiresAt P now i (type_of d) s) = s"
      using s_ex by (auto simp: fst_blocks)
    then show ?thesis
      using nf s_ts(1) s_cf s_ls by (simp add: maintain_other s_ty Let_def fst_blocks)
  qed
  have pre: "doc_after (snd (maintain P now i s)) (Some s) =
      doc_after (preserve_patch P now i (count_of P d) s) (Some s)"
    using after_maintain_other [of s P now i] nf by (simp add: s_ty norm s_cnt)
  have none: "preserve_patch P now i (count_of P d) s = []"
    using s_cases Epos
    by (auto simp: preserve_patch_def Let_def mark_removed_def split: if_splits)
  with pre show "doc_after (snd (maintain P now i s)) (Some s) = Some s" by simp
  (* the only write left is the default expiry, when it is 0 *)
  have "fst (ensure_expiresAt P now i (type_of d) s) = s"
    using s_ex by (auto simp: fst_blocks)
  then have "snd (maintain P now i s) = snd (ensure_expiresAt P now i (type_of d) s)"
    using nf s_ts(1) s_cf s_ls none
    by (simp add: maintain_other s_ty s_cnt Let_def fst_blocks snd_blocks)
  moreover have "number_or (ToNumber P (s Ftimestamp)) now + lifetimeHours (type_of d) * MS_HOUR = 0"
    if "\<not> truthy (s FexpiresAt)"
    using s_ex [OF that] that by simp
  ultimately
  show "\<forall>op \<in> set (snd (maintain P now i s)). op = UpdateCam i [(FexpiresAt, JNum (Fin 0))]"
    by (simp add: snd_blocks valid_time_def)
  have "default_expiry P now s = 0" if "\<not> truthy (s FexpiresAt)"
    using s_ex [OF that] that s_ts(1) by (simp add: default_expiry_def s_ty)
  then show "printable P now s"
    unfolding printable_def valid_time_def by (cases "truthy (s FexpiresAt)") auto
qed

lemma maintain_twice_fixed:
  assumes fx: "type_of d = JStr ''fixed_camera''" and now: "0 < now"
    and s: "doc_after (snd (maintain P now i d)) (Some d) = Some s"
  shows "maintain P now i s = (s, [])" and "printable P now s"
proof -
  let ?d3 = "fst (maintain P now i d)"
  have d3: "?d3 = fst (fixed_camera now i (count_of P d)
             (fst (ensure_confidence i (type_of d) (fst (ensure_timestamp now i d)))))"
    using fx by (simp add: maintain_fixed)
  have ts: "truthy (?d3 Ftimestamp)" using now by (simp add: maintain_mem_timestamp)
  have cf: "?d3 Fconfidence \<noteq> JUndefined" "?d3 Fconfidence \<noteq> JNull"
    unfolding d3 by (auto simp: fst_blocks)
  have hs: "truthy (?d3 Fhotspot)"
    using fx by (simp add: maintain_mem_hotspot)
  have s_def: "s = (if num_le (count_of P d) (Fin FIXED_REMOVE_THRESHOLD) \<and> \<not> truthy (d Fremoved)
           then ?d3(Fremoved := JBool True, FremovedByWorker := JBool True,
                    FlastSeen := JNum (Fin now))
           else ?d3)"
    using s unfolding after_maintain_fixed [OF fx] by simp
  have rm: "?d3 Fremoved = d Fremoved" by (simp add: maintain_mem_other)
  have s1: "truthy (s Ftimestamp)" "s Fconfidence \<noteq> JUndefined" "s Fconfidence \<noteq> JNull"
      "truthy (s Fhotspot)" "type_of s = JStr ''fixed_camera''" "count_of P s = count_of P d"
      "num_le (count_of P d) (Fin FIXED_REMOVE_THRESHOLD) \<longrightarrow> truthy (s Fremoved)"
    using ts cf hs fx rm
    by (auto simp: s_def type_of_def count_of_def maintain_mem_other)
  show "maintain P now i s = (s, [])"
    using s1 by (simp add: maintain_fixed fst_blocks snd_blocks)
  show "printable P now s" using s1(5) by (simp add: printable_def)
qed

lemma maintain_twice:
  assumes "0 < now" "doc_after (snd (maintain P now i d)) (Some d) = Some s"
  shows "doc_after (snd (maintain P now i s)) (Some s) = Some s"
    and "\<forall>op \<in> set (snd (maintain P now i s)). op = UpdateCam i [(FexpiresAt, JNum (Fin 0))]"
    and "printable P now s"
  using maintain_twice_other [OF _ assms] maintain_twice_fixed [OF _ assms]
  by (cases "type_of d = JStr ''fixed_camera''"; simp)+

lemma distinct_exec_op:
  "distinct (map fst (cameras w)) \<Longrightarrow> distinct (map fst (cameras (exec_op op w)))"
  by (cases op) (auto simp: AList.distinct_update AList.distinct_delete split: option.splits)

lemma distinct_exec_ops:
  "distinct (map fst (cameras w)) \<Longrightarrow> distinct (map fst (cameras (exec_ops ops w)))"
  by (induction ops arbitrary: w) (auto simp: distinct_exec_op)

lemma run_pass1_lookup_absent:
  assumes "i \<notin> fst ` set (cameras w)"
  shows "lookup (run_pass1 P w) i = None"
proof -
  have "lookup w i = None" using assms by (simp add: lookup_def map_of_eq_None_iff)
  then show ?thesis unfolding run_pass1_def by (rule lookup_exec_ops_absent)
qed

lemma run_pass1_hotspots: "camera_hotspots (run_pass1 P w) = camera_hotspots w"
  unfolding run_pass1_def pass1_def
  by (rule hotspots_exec_ops_cam) (auto simp: per_doc_pass_mem dest!: maintain_target)

subsection \<open>Clusters\<close>

lemma exec_ops_hotspot_last:
  "\<not> failed (exec_ops ops w) \<Longrightarrow> SetHotspot k h \<in> set ops \<Longrightarrow>
   \<exists>h'. SetHotspot k h' \<in> set ops \<and> camera_hotspots (exec_ops ops w) k = Some h'"
proof (induction ops arbitrary: h rule: rev_induct)
  case Nil
  then show ?case by simp
next
  case (snoc x xs)
  have nf: "\<not> failed (exec_ops xs w)"
    using snoc.prems(1) exec_op_failed by (fastforce simp: exec_ops_append)
  show ?case
  proof (cases "\<exists>h''. x = SetHotspot k h''")
    case True
    then obtain h'' where x: "x = SetHotspot k h''" by blast
    then show ?thesis using nf by (auto simp: exec_ops_append)
  next
    case False
    then have "SetHotspot k h \<in> set xs" using snoc.prems(2) by auto
    from snoc.IH [OF nf this] obtain h' where
      h': "SetHotspot k h' \<in> set xs" "camera_hotspots (exec_ops xs w) k = Some h'" by blast
    have "camera_hotspots (exec_op x (exec_ops xs w)) k = camera_hotspots (exec_ops xs w) k"
      using False by (cases x) (auto split: option.splits)
    with h' show ?thesis by (auto simp: exec_ops_append)
  qed
qed

text \<open>The in-memory entry of a stored document after the first pass.\<close>

lemma pass1_member:
  "(i, d) \<in> set (cameras w) \<Longrightarrow> (i, fst (maintain P (clock P 0) i d)) \<in> set (fst (pass1 P w))"
  by (force simp: fst_pass1)

lemma recent_member_candidate:
  assumes "(i, d) \<in> set (cameras w)" "type_of d = JStr ''mobile_camera''"
    "truthy (d Ftimestamp)"
    "num_ge (ToNumber P (d Ftimestamp)) (Fin (hotspotWindowCutoff (clock P 0)))"
  shows "(i, fst (maintain P (clock P 0) i d)) \<in> set (candidates P r w)"
proof -
  have "recent_mobile P (hotspotWindowCutoff (clock P 0)) (fst (maintain P (clock P 0) i d))"
    using assms(2-4) by (simp add: recent_mobile_def maintain_mem_timestamp type_of_def)
  with pass1_member [OF assms(1)] show ?thesis
    by (simp add: candidates_def mobileDocs_def)
qed

lemma member_has_point:
  "truthy (d Flat) \<Longrightarrow> truthy (d Flon) \<Longrightarrow> truthy (d Ftimestamp) \<Longrightarrow>
   has_point (fst (maintain P now i d))"
  by (simp add: has_point_def maintain_mem_timestamp)

lemma length_ge_card: "A \<subseteq> set xs \<Longrightarrow> card A \<le> length xs"
  by (meson card_length card_mono List.finite_set le_trans)

text \<open>
  The members of a cluster, as the second pass sees them: each is a candidate with a
  point, and each lies within the radius of each.
\<close>

lemma cluster_members_nearby:
  assumes sub: "S \<subseteq> set (cameras w)"
    and mob: "\<forall>(i, d) \<in> S. type_of d = JStr ''mobile_camera''
          \<and> truthy (d Flat) \<and> truthy (d Flon) \<and> truthy (d Ftimestamp)
          \<and> num_ge (ToNumber P (d Ftimestamp)) (Fin (hotspotWindowCutoff (clock P 0)))"
    and near: "\<forall>(i, d) \<in> S. \<forall>(j, e) \<in> S. within_radius P d e"
    and b: "(j, e) \<in> S" and m: "(i, d) \<in> S"
  shows "(i, fst (maintain P (clock P 0) i d))
         \<in> set (neighbours P (fst (maintain P (clock P 0) j e)) (candidates P r w))"
proof -
  have "(i, fst (maintain P (clock P 0) i d)) \<in> set (candidates P r w)"
    using recent_member_candidate [of i d w P r] sub mob m by auto
  moreover have "has_point (fst (maintain P (clock P 0) i d))"
    using member_has_point [of d P "clock P 0" i] mob m by auto
  moreover have "within_radius P e d"
    using near b m by auto
  ultimately show ?thesis by (simp add: neighbours_def within_radius_def)
qed

lemma cluster_card:
  assumes dist: "distinct (map fst (cameras w))" and sub: "S \<subseteq> set (cameras w)"
  shows "card ((\<lambda>c. (fst c, fst (maintain P now (fst c) (snd c)))) ` S) = card S"
proof (rule card_image)
  have "inj_on fst (set (cameras w))" using dist by (simp add: distinct_map)
  then have "inj_on fst S" using sub by (rule inj_on_subset)
  then show "inj_on (\<lambda>c. (fst c, fst (maintain P now (fst c) (snd c)))) S"
    by (auto simp: inj_on_def)
qed

lemma cluster_seed_qualifies:
  assumes dist: "distinct (map fst (cameras w))" and sub: "S \<subseteq> set (cameras w)"
    and N: "HOTSPOT_THRESHOLD \<le> card S"
    and mob: "\<forall>(i, d) \<in> S. type_of d = JStr ''mobile_camera''
          \<and> truthy (d Flat) \<and> truthy (d Flon) \<and> truthy (d Ftimestamp)
          \<and> num_ge (ToNumber P (d Ftimestamp)) (Fin (hotspotWindowCutoff (clock P 0)))"
    and near: "\<forall>(i, d) \<in> S. \<forall>(j, e) \<in> S. within_radius P d e"
    and b: "(j, e) \<in> S" and unflagged: "\<not> truthy (e Fhotspot)"
  shows "card S \<le> length (neighbours P (fst (maintain P (clock P 0) j e)) (candidates P r w))"
    and "qualifies P (candidates P r w) (j, fst (maintain P (clock P 0) j e))"
    and "(j, fst (maintain P (clock P 0) j e)) \<in> set (candidates P r w)"
proof -
  let ?now = "clock P 0"
  let ?mem = "\<lambda>c. (fst c, fst (maintain P ?now (fst c) (snd c)))"
  let ?nb = "neighbours P (fst (maintain P ?now j e)) (candidates P r w)"
  have "?mem ` S \<subseteq> set ?nb"
    using cluster_members_nearby [OF sub mob near b] by auto
  from length_ge_card [OF this] cluster_card [OF dist sub, of P ?now]
  show len: "card S \<le> length ?nb" by simp
  have ty: "type_of e = JStr ''mobile_camera''" using mob b by auto
  have "\<not> truthy (fst (maintain P ?now j e) Fhotspot)"
    using unflagged ty by (simp add: maintain_mem_hotspot)
  moreover have "has_point (fst (maintain P ?now j e))"
    using member_has_point [of e P ?now j] mob b by auto
  ultimately show "qualifies P (candidates P r w) (j, fst (maintain P ?now j e))"
    using len N by (simp add: qualifies_def)
  show "(j, fst (maintain P ?now j e)) \<in> set (candidates P r w)"
    using recent_member_candidate [of j e w P r] sub mob b by auto
qed

lemma floor_rat_numeral_div:
  "\<lfloor>numeral a / numeral b :: rat\<rfloor> = numeral a div numeral b"
  by (metis floor_divide_of_int_eq of_int_numeral)

lemma member_survives_pass1:
  assumes "type_of d = JStr ''mobile_camera''" "truthy (d Ftimestamp)"
    "num_ge (ToNumber P (d Ftimestamp)) (Fin (hotspotWindowCutoff now))"
  shows "\<exists>s. doc_after (snd (maintain P now i d)) (Some d) = Some s \<and> s Fhotspot = d Fhotspot"
proof -
  let ?d4 = "fst (maintain P now i d)"
  have nf: "type_of d \<noteq> JStr ''fixed_camera''" using assms(1) by simp
  have ts: "\<not> number_or (ToNumber P (?d4 Ftimestamp)) 0 < hotspotWindowCutoff now"
    using assms(2,3) by (simp add: maintain_mem_timestamp number_or_ge)
  have hs: "?d4 Fhotspot = d Fhotspot" using nf by (simp add: maintain_mem_hotspot)
  show ?thesis
    unfolding after_maintain_other [OF nf] doc_after_preserve_patch
    using ts hs by (simp add: Let_def)
qed

subsection \<open>A second run at the same instant\<close>

text \<open>
  A second run is \<open>main\<close> on the store that a first run has produced, with the same
  platform: its clock gives the same readings again.
\<close>

text \<open>Without a seed the second loop issues nothing.\<close>

lemma hotspot_pass_no_seed:
  assumes nt: "\<forall>b \<in> set bases. has_point (snd b) \<longrightarrow> nearby P (snd b) docs \<noteq> None"
    and nq: "\<forall>b \<in> set bases. \<not> qualifies P docs b"
  shows "hotspot_pass P docs t bases = []"
proof (rule ccontr)
  assume "hotspot_pass P docs t bases \<noteq> []"
  then obtain op where op: "op \<in> set (hotspot_pass P docs t bases)"
    by (cases "hotspot_pass P docs t bases") auto
  with hotspot_pass_no_throw [OF nt, of t] have "op \<noteq> Throw" by auto
  with hotspot_pass_mem [OF op] nq show False by blast
qed

text \<open>The first pass changes no document of a store on whose documents the loop body
  changes nothing.\<close>

lemma run_pass1_fixpoint:
  assumes d1: "distinct (map fst (cameras w))" and f1: "\<not> failed w"
    and ps: "printable_store P w"
    and stay: "\<And>i s. (i, s) \<in> set (cameras w) \<Longrightarrow>
                doc_after (snd (maintain P (clock P 0) i s)) (Some s) = Some s"
  shows "lookup (run_pass1 P w) i = lookup w i"
proof (cases "lookup w i")
  case None
  then have "i \<notin> fst ` set (cameras w)"
    by (simp add: lookup_def map_of_eq_None_iff)
  from run_pass1_lookup_absent [OF this] None show ?thesis by simp
next
  case (Some s)
  then have mem: "(i, s) \<in> set (cameras w)"
    by (simp add: lookup_def map_of_SomeD)
  from run_pass1_lookup [OF d1 f1 mem ps] stay [OF mem] Some show ?thesis by simp
qed

text \<open>
  The first pass run again at the same instant, for a clock after the epoch and a store
  on which it does not throw, does not throw and leaves every stored document and every
  summary as it is.
\<close>

lemma run_pass1_origin:
  assumes "distinct (map fst (cameras w))" "\<not> failed w" "printable_store P w"
    and "(i, s) \<in> set (cameras (run_pass1 P w))"
  shows "\<exists>d. (i, d) \<in> set (cameras w)
           \<and> doc_after (snd (maintain P (clock P 0) i d)) (Some d) = Some s"
proof -
  have d1: "distinct (map fst (cameras (run_pass1 P w)))"
    unfolding run_pass1_def using assms(1) by (rule distinct_exec_ops)
  have l1: "lookup (run_pass1 P w) i = Some s" using d1 assms(4) by (rule lookup_Some)
  then have "i \<in> fst ` set (cameras w)"
    using run_pass1_lookup_absent [of i w P] by auto
  then obtain d where d: "(i, d) \<in> set (cameras w)" by auto
  from run_pass1_lookup [OF assms(1,2) d assms(3)] l1 d show ?thesis by auto
qed

lemma first_pass_idempotent:
  assumes "distinct (map fst (cameras w))" "\<not> failed w" "0 < clock P 0"
    and ps: "printable_store P w"
  shows "\<not> failed (run_pass1 P (run_pass1 P w))
     \<and> (\<forall>i. lookup (run_pass1 P (run_pass1 P w)) i = lookup (run_pass1 P w) i)
     \<and> camera_hotspots (run_pass1 P (run_pass1 P w)) = camera_hotspots (run_pass1 P w)"
proof -
  let ?now = "clock P 0"
  let ?w1 = "run_pass1 P w"
  have d1: "distinct (map fst (cameras ?w1))"
    unfolding run_pass1_def using assms(1) by (rule distinct_exec_ops)
  have f1: "\<not> failed ?w1" using assms(1,2) ps by (rule run_pass1_not_failed)
  have twice: "doc_after (snd (maintain P ?now i s)) (Some s) = Some s \<and> printable P ?now s"
    if "(i, s) \<in> set (cameras ?w1)" for i s
    using run_pass1_origin [OF assms(1,2) ps that] maintain_twice(1,3) [OF assms(3)] by blast
  have ps1: "printable_store P ?w1"
    using ps twice by (auto simp: printable_store_def)
  have "lookup (run_pass1 P ?w1) i = lookup ?w1 i" for i
    using twice by (intro run_pass1_fixpoint [OF d1 f1 ps1]) simp
  then show ?thesis
    using run_pass1_not_failed [OF d1 f1 ps1] by (simp add: run_pass1_hotspots)
qed

text \<open>The promotion writes a stored document receives are those of its own in-memory entry.\<close>

lemma ops_for_pass2_own:
  assumes dist: "distinct (map fst (cameras w))" and mem: "(i, d) \<in> set (cameras w)"
    and op: "op \<in> set (ops_for i (pass2 P r w))"
  shows "\<exists>t. op = promotion P t (i, fst (maintain P (clock P 0) i d))"
proof -
  from op have m: "op \<in> set (pass2 P r w)" and tg: "cam_target op = Some i"
    by (auto simp: ops_for_def)
  from pass2_mem [OF m] tg obtain base n t' where
    n: "n \<in> set (neighbours P (snd base) (candidates P r w))" "\<not> is_report_id (fst n)"
       "op = promotion P t' n"
    by auto
  from n(3) tg have i: "fst n = i" by (simp add: promotion_def Let_def)
  from neighbours_subset [OF n(1)] have "n \<in> set (candidates P r w)" by simp
  from candidates_mem(1) [OF this n(2)] i have "(i, snd n) \<in> set (fst (pass1 P w))"
    by (cases n) auto
  from pass1_entry [OF this] obtain e where
    e: "(i, e) \<in> set (cameras w)" "snd n = fst (maintain P (clock P 0) i e)" by auto
  have "e = d" using map_of_is_SomeI [OF dist e(1)] map_of_is_SomeI [OF dist mem] by simp
  with e(2) i have "n = (i, fst (maintain P (clock P 0) i d))" by (cases n) auto
  with n(3) show ?thesis by blast
qed

text \<open>What the promotions of one in-memory entry make of a stored document.\<close>

lemma doc_after_promotions_of:
  assumes "ops \<noteq> []" "\<forall>op \<in> set ops. \<exists>t. op = promotion P t (i, e)"
  shows "\<exists>t. doc_after ops (Some s) =
     Some (s(Fhotspot := JBool True,
             Fconfidence := JNum (Math_min (Fin 100) (plus20 P (js_or (e Fconfidence) (JNum (Fin 70))))),
             FexpiresAt := JNum (Fin (clock P t + PRESERVE_HOTSPOT_DAYS * MS_DAY)),
             FlastSeen := JNum (Math_max (ToNumber P (js_or (e FlastSeen) (JNum (Fin 0))))
                                         (ToNumber P (js_or (e Ftimestamp) (JNum (Fin 0)))))))"
  using assms
proof (induction ops arbitrary: s rule: rev_induct)
  case Nil
  then show ?case by simp
next
  case (snoc op ops)
  from snoc.prems(2) obtain t where op: "op = promotion P t (i, e)" by auto
  have "\<forall>op \<in> set ops. is_promotion i op"
    using snoc.prems(2) promotion_is_promotion [of "(i, e)" P] by fastforce
  from doc_after_promotions [OF this, of s] obtain s' where
    s': "doc_after ops (Some s) = Some s'"
        "\<forall>f. f \<notin> {Fhotspot, Fconfidence, FexpiresAt, FlastSeen} \<longrightarrow> s' f = s f"
    by blast
  show ?case
    using s'(2)
    by (intro exI [of _ t]) (auto simp: doc_after_append s'(1) op promotion_def Let_def fun_eq_iff)
qed


text \<open>The loop body leaves a flagged, unexpired mobile document that has all its defaults.\<close>

lemma maintain_stable:
  assumes "type_of s \<noteq> JStr ''fixed_camera''" "truthy (s Ftimestamp)"
    "s Fconfidence \<noteq> JUndefined" "s Fconfidence \<noteq> JNull"
    "truthy (s FexpiresAt)" "\<not> num_lt (ToNumber P (s FexpiresAt)) (Fin now)"
    "truthy (s FlastSeen)" "truthy (s Fhotspot)"
  shows "maintain P now i s = (s, [])"
  using assms by (simp add: maintain_other Let_def fst_blocks snd_blocks preserve_patch_def)

text \<open>The writes of the loop body leave the store and the in-memory copy with the same
  fields, but for the four that the PATCH block and the removal of a fixed camera write.\<close>

lemma after_maintain_fields:
  assumes s: "doc_after (snd (maintain P now i d)) (Some d) = Some s"
    and f: "f \<notin> {Fremoved, FremovedByWorker, FlastSeen, FexpiresAt}"
  shows "s f = fst (maintain P now i d) f"
proof (cases "type_of d = JStr ''fixed_camera''")
  case True
  from s [unfolded after_maintain_fixed [OF True]] f show ?thesis
    by (auto split: if_splits)
next
  case False
  from s [unfolded after_maintain_other [OF False] doc_after_preserve_patch] f show ?thesis
    by (auto simp: Let_def split: if_splits)
qed

lemma recent_mobile_cong:
  "d Ftype = e Ftype \<Longrightarrow> d Ftimestamp = e Ftimestamp \<Longrightarrow>
   recent_mobile P c d = recent_mobile P c e"
  by (simp add: recent_mobile_def)

lemma recent_mobile_number:
  "recent_mobile P c d \<Longrightarrow> \<exists>x. ToNumber P (d Ftimestamp) = Fin x \<and> c \<le> x"
  by (cases "ToNumber P (d Ftimestamp)") (auto simp: recent_mobile_def)

text \<open>Where a document of the store after a run comes from.\<close>

lemma main_origin:
  assumes dist: "distinct (map fst (cameras w))" and ok: "\<not> failed w"
    and cl: "clean P r w"
    and mem: "(i, s1) \<in> set (cameras (main P r w))"
  shows "\<exists>d s. (i, d) \<in> set (cameras w)
           \<and> doc_after (snd (maintain P (clock P 0) i d)) (Some d) = Some s
           \<and> doc_after (ops_for i (pass2 P r w)) (Some s) = Some s1"
proof -
  have d1: "distinct (map fst (cameras (main P r w)))"
    unfolding main_eq using dist by (rule distinct_exec_ops)
  have l1: "lookup (main P r w) i = Some s1" using d1 mem by (rule lookup_Some)
  have "lookup w i \<noteq> None"
  proof
    assume "lookup w i = None"
    from lookup_exec_ops_absent [OF this] l1 show False by (simp add: main_eq)
  qed
  then obtain d where "lookup w i = Some d" by auto
  then have d: "(i, d) \<in> set (cameras w)" by (simp add: lookup_def map_of_SomeD)
  from main_lookup [OF dist ok d cl] l1
  have eq: "doc_after (ops_for i (pass2 P r w))
              (doc_after (snd (maintain P (clock P 0) i d)) (Some d)) = Some s1" by simp
  then obtain s where s: "doc_after (snd (maintain P (clock P 0) i d)) (Some d) = Some s"
    by (cases "doc_after (snd (maintain P (clock P 0) i d)) (Some d)") auto
  with eq d show ?thesis by auto
qed


text \<open>
  A stored document after a run, read by a second run at the same instant: the loop body
  leaves it as it is, and its in-memory entry has the type, the point and the timestamp
  of the entry of the first run.
\<close>

lemma rerun_entry:
  assumes dist: "distinct (map fst (cameras w))"
    and late: "0 < hotspotWindowCutoff (clock P 0)"
    and mono: "\<forall>t. clock P 0 \<le> clock P t"
    and num: "truthy (d FlastSeen) \<longrightarrow> ToNumber P (d FlastSeen) \<noteq> NaN"
    and d: "(i, d) \<in> set (cameras w)"
    and s: "doc_after (snd (maintain P (clock P 0) i d)) (Some d) = Some s"
    and s1: "doc_after (ops_for i (pass2 P r w)) (Some s) = Some s1"
  shows "doc_after (snd (maintain P (clock P 0) i s1)) (Some s1) = Some s1"
    and "fst (maintain P (clock P 0) i s1) Ftimestamp = fst (maintain P (clock P 0) i d) Ftimestamp"
    and "s1 Ftype = d Ftype" "s1 Flat = d Flat" "s1 Flon = d Flon"
    and "\<not> truthy (fst (maintain P (clock P 0) i s1) Fhotspot) \<Longrightarrow>
         ops_for i (pass2 P r w) = [] \<and> \<not> truthy (fst (maintain P (clock P 0) i d) Fhotspot)"
    and "\<forall>op \<in> set (snd (maintain P (clock P 0) i s1)).
           op = UpdateCam i [(FexpiresAt, JNum (Fin 0))]"
    and "printable P (clock P 0) s1"
proof -
  let ?now = "clock P 0"
  let ?d4 = "fst (maintain P ?now i d)"
  have now: "0 < ?now"
    using late by (simp add: hotspotWindowCutoff_def HOTSPOT_WINDOW_DAYS_def MS_DAY_def)
  have ts4: "truthy (?d4 Ftimestamp)" using now by (simp add: maintain_mem_timestamp)
  have sf: "s Ftype = d Ftype" "s Flat = d Flat" "s Flon = d Flon"
      "s Ftimestamp = ?d4 Ftimestamp" "s Fhotspot = ?d4 Fhotspot"
    using after_maintain_fields [OF s] by simp_all
  have keep: "\<forall>f. f \<notin> {Fhotspot, Fconfidence, FexpiresAt, FlastSeen} \<longrightarrow> s1 f = s f"
    using doc_after_promotions [OF ops_for_pass2_promotions, of i P r w s] s1 by auto
  then have s1f: "s1 Ftype = d Ftype" "s1 Flat = d Flat" "s1 Flon = d Flon"
      "s1 Ftimestamp = ?d4 Ftimestamp"
    using sf by simp_all
  show "s1 Ftype = d Ftype" "s1 Flat = d Flat" "s1 Flon = d Flon" by (fact s1f)+
  show "fst (maintain P ?now i s1) Ftimestamp = ?d4 Ftimestamp"
    using s1f(4) ts4 by (simp add: maintain_mem_timestamp)
  have "doc_after (snd (maintain P ?now i s1)) (Some s1) = Some s1
        \<and> (\<not> truthy (fst (maintain P ?now i s1) Fhotspot) \<longrightarrow>
             ops_for i (pass2 P r w) = [] \<and> \<not> truthy (?d4 Fhotspot))
        \<and> (\<forall>op \<in> set (snd (maintain P ?now i s1)).
             op = UpdateCam i [(FexpiresAt, JNum (Fin 0))])
        \<and> printable P ?now s1"
  proof (cases "ops_for i (pass2 P r w) = []")
    case True
    with s1 have eq: "s1 = s" by simp
    have "\<not> truthy (fst (maintain P ?now i s) Fhotspot) \<Longrightarrow> \<not> truthy (s Fhotspot)"
      by (simp add: maintain_mem_hotspot split: if_splits)
    then show ?thesis
      using maintain_twice [OF now s] True sf(5) by (simp add: eq)
  next
    case False
    then obtain op where op: "op \<in> set (ops_for i (pass2 P r w))"
      by (cases "ops_for i (pass2 P r w)") auto
    from ops_for_pass2_own [OF dist d op] obtain t0 where
      t0: "op = promotion P t0 (i, ?d4)" by blast
    have "UpdateCam i (case op of UpdateCam j p \<Rightarrow> p) \<in> set (pass2 P r w)"
      using op t0 by (simp add: ops_for_def promotion_def Let_def)
    from pass2_update(3) [OF this] obtain d' where
      d': "(i, d') \<in> set (fst (pass1 P w))" "recent_mobile P (hotspotWindowCutoff ?now) d'"
      by auto
    from pass1_entry [OF d'(1)] obtain e where
      e: "(i, e) \<in> set (cameras w)" "d' = fst (maintain P ?now i e)" by auto
    have "e = d" using map_of_is_SomeI [OF dist e(1)] map_of_is_SomeI [OF dist d] by simp
    with e(2) d'(2) have rec: "recent_mobile P (hotspotWindowCutoff ?now) ?d4" by simp
    from recent_mobile_number [OF rec] obtain x where
      x: "ToNumber P (?d4 Ftimestamp) = Fin x" "hotspotWindowCutoff ?now \<le> x" by blast
    have ty: "type_of d = JStr ''mobile_camera''"
      using rec by (simp add: recent_mobile_def type_of_def)
    have nf: "type_of d \<noteq> JStr ''fixed_camera''" using ty by simp
    (* the lastSeen the promotion writes is a positive number *)
    have ls4: "?d4 FlastSeen = (if truthy (d FlastSeen) then d FlastSeen else ?d4 Ftimestamp)"
      using nf ts4
      by (auto simp: maintain_other Let_def fst_blocks js_or_def)
    have "\<exists>y. ToNumber P (js_or (?d4 FlastSeen) (JNum (Fin 0))) = Fin y"
    proof (cases "truthy (d FlastSeen)")
      case True
      then show ?thesis using num ls4 by (cases "ToNumber P (d FlastSeen)") (auto simp: js_or_def)
    next
      case False
      then show ?thesis using ls4 ts4 x(1) by (simp add: js_or_def)
    qed
    then obtain y where y: "ToNumber P (js_or (?d4 FlastSeen) (JNum (Fin 0))) = Fin y" by blast
    have L: "Math_max (ToNumber P (js_or (?d4 FlastSeen) (JNum (Fin 0))))
                      (ToNumber P (js_or (?d4 Ftimestamp) (JNum (Fin 0)))) = Fin (max y x)"
      using y x(1) ts4 by (simp add: js_or_def)
    have Lpos: "max y x \<noteq> 0" using x(2) late by auto
    have all: "\<forall>op \<in> set (ops_for i (pass2 P r w)). \<exists>t. op = promotion P t (i, ?d4)"
      using ops_for_pass2_own [OF dist d] by blast
    from doc_after_promotions_of [OF False all, of s] s1 obtain t where
      s1_eq: "s1 = s(Fhotspot := JBool True,
             Fconfidence := JNum (Math_min (Fin 100) (plus20 P (js_or (?d4 Fconfidence) (JNum (Fin 70))))),
             FexpiresAt := JNum (Fin (clock P t + PRESERVE_HOTSPOT_DAYS * MS_DAY)),
             FlastSeen := JNum (Fin (max y x)))"
      unfolding L by auto
    have ct: "?now \<le> clock P t" using mono by simp
    have E: "clock P t + PRESERVE_HOTSPOT_DAYS * MS_DAY \<noteq> 0"
        "\<not> clock P t + PRESERVE_HOTSPOT_DAYS * MS_DAY < ?now"
      using ct now const_pos by auto
    have "maintain P ?now i s1 = (s1, [])"
    proof (rule maintain_stable)
      show "type_of s1 \<noteq> JStr ''fixed_camera''"
        using ty s1f(1) by (simp add: type_of_def)
      show "truthy (s1 Ftimestamp)" using s1f(4) ts4 by simp
      show "s1 Fconfidence \<noteq> JUndefined" "s1 Fconfidence \<noteq> JNull"
        by (simp_all add: s1_eq)
      show "truthy (s1 FexpiresAt)" using E(1) by (simp add: s1_eq)
      show "\<not> num_lt (ToNumber P (s1 FexpiresAt)) (Fin ?now)" using E(2) by (simp add: s1_eq)
      show "truthy (s1 FlastSeen)" using Lpos by (simp add: s1_eq)
      show "truthy (s1 Fhotspot)" by (simp add: s1_eq)
    qed
    moreover have "truthy (s1 Fhotspot)" by (simp add: s1_eq)
    moreover have "printable P ?now s1" using E(1) by (simp add: printable_def s1_eq)
    ultimately show ?thesis by simp
  qed
  then show "doc_after (snd (maintain P ?now i s1)) (Some s1) = Some s1"
    and "\<not> truthy (fst (maintain P ?now i s1) Fhotspot) \<Longrightarrow>
         ops_for i (pass2 P r w) = [] \<and> \<not> truthy (?d4 Fhotspot)"
    and "\<forall>op \<in> set (snd (maintain P ?now i s1)).
           op = UpdateCam i [(FexpiresAt, JNum (Fin 0))]"
    and "printable P ?now s1"
    by blast+
qed

text \<open>A run leaves a clean store clean, for a second run at the same instant.\<close>

lemma rerun_clean:
  assumes dist: "distinct (map fst (cameras w))" and ok: "\<not> failed w"
    and cl: "clean P r w"
    and late: "0 < hotspotWindowCutoff (clock P 0)"
    and mono: "\<forall>t. clock P 0 \<le> clock P t"
    and num: "\<forall>(i, d) \<in> set (cameras w). truthy (d FlastSeen) \<longrightarrow> ToNumber P (d FlastSeen) \<noteq> NaN"
  shows "clean P r (main P r w)"
proof -
  let ?w1 = "main P r w"
  have entry: "printable P (clock P 0) s1
      \<and> (\<exists>d \<in> set (map snd (cameras w)). s1 Flat = d Flat \<and> s1 Flon = d Flon)"
    if "(i, s1) \<in> set (cameras ?w1)" for i s1
  proof -
    from main_origin [OF dist ok cl that] obtain d s where
      d: "(i, d) \<in> set (cameras w)"
         "doc_after (snd (maintain P (clock P 0) i d)) (Some d) = Some s"
         "doc_after (ops_for i (pass2 P r w)) (Some s) = Some s1"
      by blast
    have "truthy (d FlastSeen) \<longrightarrow> ToNumber P (d FlastSeen) \<noteq> NaN"
      using num d(1) by auto
    from rerun_entry(4,5,8) [OF dist late mono this d] d(1) show ?thesis by force
  qed
  have ps: "printable_store P ?w1"
    using cl entry by (auto simp: clean_def printable_store_def)
  have "locatable P (map snd (cameras ?w1) @ map snd (reportDocs r))"
    unfolding locatable_def
  proof (intro ballI impI)
    fix a b
    assume a: "a \<in> set (map snd (cameras ?w1) @ map snd (reportDocs r))"
      and b: "b \<in> set (map snd (cameras ?w1) @ map snd (reportDocs r))"
      and t: "truthy (a Flat) \<and> truthy (a Flon) \<and> truthy (b Flat) \<and> truthy (b Flon)"
    have src: "\<exists>d \<in> set (map snd (cameras w) @ map snd (reportDocs r)).
        x Flat = d Flat \<and> x Flon = d Flon"
      if "x \<in> set (map snd (cameras ?w1) @ map snd (reportDocs r))" for x
      using that entry by fastforce
    from src [OF a] src [OF b] obtain d e where
      "d \<in> set (map snd (cameras w) @ map snd (reportDocs r))" "a Flat = d Flat" "a Flon = d Flon"
      "e \<in> set (map snd (cameras w) @ map snd (reportDocs r))" "b Flat = e Flat" "b Flon = e Flon"
      by blast
    with cl t show "getDistance P (a Flat, a Flon) (b Flat, b Flon) \<noteq> None"
      unfolding clean_def locatable_def by metis
  qed
  with ps show ?thesis by (simp add: clean_def)
qed


lemma candidates_no_reports:
  "reportDocs r = [] \<Longrightarrow>
   candidates P r w =
     filter (\<lambda>c. recent_mobile P (hotspotWindowCutoff (clock P 0)) (snd c)) (fst (pass1 P w))"
  by (simp add: candidates_def mobileDocs_def)

lemma distinct_candidates:
  assumes "distinct (map fst (cameras w))" "reportDocs r = []"
  shows "distinct (map fst (candidates P r w))"
proof -
  have "map fst (fst (pass1 P w)) = map fst (cameras w)"
    by (simp add: fst_pass1 comp_def)
  then show ?thesis
    using assms by (simp add: candidates_no_reports distinct_map_filter)
qed

text \<open>
  With no raw reports and no report id among the camera documents, the second pass of a
  second run at the same instant finds no seed: an unflagged candidate of the second run
  was an unflagged candidate of the first, with at least as many candidates around it,
  and the first run has flagged it if it qualified.
\<close>

lemma rerun_no_seed:
  assumes dist: "distinct (map fst (cameras w))" and ok: "\<not> failed w"
    and cl: "clean P r w"
    and late: "0 < hotspotWindowCutoff (clock P 0)"
    and mono: "\<forall>t. clock P 0 \<le> clock P t"
    and norep: "reportDocs r = []"
    and ids: "\<forall>(i, d) \<in> set (cameras w). \<not> is_report_id i"
    and self: "\<forall>(i, d) \<in> set (cameras w). truthy (d Flat) \<and> truthy (d Flon) \<longrightarrow>
          within_radius P d d"
    and num: "\<forall>(i, d) \<in> set (cameras w). truthy (d FlastSeen) \<longrightarrow> ToNumber P (d FlastSeen) \<noteq> NaN"
  shows "pass2 P r (main P r w) = []"
  unfolding pass2_def
proof (rule hotspot_pass_no_seed, goal_cases)
  case 1
  have "locatable P (map snd (cameras (main P r w)) @ map snd (reportDocs r))"
    using rerun_clean [OF dist ok cl late mono num] by (simp add: clean_def)
  from candidates_nearby [OF this] show ?case by auto
next
  case 2
  show ?case
  proof (rule ballI, rule notI)
  let ?now = "clock P 0"
  let ?cut = "hotspotWindowCutoff ?now"
  let ?w1 = "main P r w"
  let ?C1 = "candidates P r w"
  let ?C2 = "candidates P r ?w1"
  define orig where
    "orig n = (fst n, fst (maintain P ?now (fst n) (the (lookup w (fst n)))))" for n :: "string \<times> doc"
  have fst_orig [simp]: "fst (orig n) = fst n" for n by (simp add: orig_def)
  (* every candidate of the second run comes from a candidate of the first *)
  have A: "orig n \<in> set ?C1 \<and> (fst n, the (lookup w (fst n))) \<in> set (cameras w)
         \<and> snd (orig n) Flat = snd n Flat \<and> snd (orig n) Flon = snd n Flon
         \<and> snd (orig n) Ftimestamp = snd n Ftimestamp
         \<and> (\<not> truthy (snd n Fhotspot) \<longrightarrow>
              ops_for (fst n) (pass2 P r w) = [] \<and> \<not> truthy (snd (orig n) Fhotspot))"
    if n: "n \<in> set ?C2" for n
  proof -
    from n have n1: "n \<in> set (fst (pass1 P ?w1))" and rec: "recent_mobile P ?cut (snd n)"
      by (simp_all add: candidates_no_reports [OF norep])
    from pass1_entry [of "fst n" "snd n" P ?w1] n1 obtain s1 where
      s1: "(fst n, s1) \<in> set (cameras ?w1)" "snd n = fst (maintain P ?now (fst n) s1)"
      by auto
    from main_origin [OF dist ok cl s1(1)] obtain d s where
      d: "(fst n, d) \<in> set (cameras w)"
         "doc_after (snd (maintain P ?now (fst n) d)) (Some d) = Some s"
         "doc_after (ops_for (fst n) (pass2 P r w)) (Some s) = Some s1"
      by blast
    have lk: "the (lookup w (fst n)) = d" using lookup_Some [OF dist d(1)] by simp
    have nm: "truthy (d FlastSeen) \<longrightarrow> ToNumber P (d FlastSeen) \<noteq> NaN"
      using num d(1) by auto
    note re = rerun_entry [OF dist late mono nm d]
    have b: "orig n = (fst n, fst (maintain P ?now (fst n) d))" by (simp add: orig_def lk)
    have ts: "snd (orig n) Ftimestamp = snd n Ftimestamp"
      using re(2) by (simp add: b s1(2))
    have ty: "snd (orig n) Ftype = snd n Ftype"
      using re(3) by (simp add: b s1(2))
    have la: "snd (orig n) Flat = snd n Flat" "snd (orig n) Flon = snd n Flon"
      using re(4,5) by (simp_all add: b s1(2))
    have "recent_mobile P ?cut (snd (orig n))"
      using rec recent_mobile_cong [OF ty ts] by simp
    with pass1_member [OF d(1), of P] have "orig n \<in> set ?C1"
      by (simp add: b candidates_no_reports [OF norep])
    moreover have "\<not> truthy (snd n Fhotspot) \<longrightarrow>
        ops_for (fst n) (pass2 P r w) = [] \<and> \<not> truthy (snd (orig n) Fhotspot)"
      using re(6) by (simp add: b s1(2))
    ultimately show ?thesis using ts la d(1) lk by simp
  qed
  fix base assume base: "base \<in> set ?C2" and q: "qualifies P ?C2 base"
  let ?nb2 = "neighbours P (snd base) ?C2"
  let ?nb1 = "neighbours P (snd (orig base)) ?C1"
  from q have hp: "has_point (snd base)" and un: "\<not> truthy (snd base Fhotspot)"
    and len2: "HOTSPOT_THRESHOLD \<le> length ?nb2"
    by (simp_all add: qualifies_def)
  note Ab = A [OF base]
  (* the neighbours of the second run are neighbours of the first *)
  have sub: "orig ` set ?nb2 \<subseteq> set ?nb1"
  proof
    fix m assume "m \<in> orig ` set ?nb2"
    then obtain n where n: "n \<in> set ?nb2" "m = orig n" by auto
    from n(1) have nC: "n \<in> set ?C2" and np: "has_point (snd n)"
      and nd: "within_radius P (snd base) (snd n)"
      by (simp_all add: neighbours_def)
    note An = A [OF nC]
    have "has_point (snd (orig n))" using np An by (simp add: has_point_def)
    moreover have "within_radius P (snd (orig base)) (snd (orig n))"
      using nd An Ab by (simp add: within_radius_def)
    ultimately show "m \<in> set ?nb1" using An n(2) by (simp add: neighbours_def)
  qed
  have dC2: "distinct (map fst ?C2)"
  proof (rule distinct_candidates [OF _ norep])
    show "distinct (map fst (cameras ?w1))"
      unfolding main_eq using dist by (rule distinct_exec_ops)
  qed
  have "distinct (map fst ?nb2)"
    using dC2 by (simp add: neighbours_def distinct_map_filter)
  then have dnb: "distinct ?nb2" and inj: "inj_on fst (set ?nb2)"
    by (simp_all add: distinct_map)
  have "inj_on orig (set ?nb2)"
  proof (rule inj_onI)
    fix a b assume "a \<in> set ?nb2" "b \<in> set ?nb2" "orig a = orig b"
    then have "fst a = fst b" by (metis fst_orig)
    with inj \<open>a \<in> set ?nb2\<close> \<open>b \<in> set ?nb2\<close> show "a = b" by (simp add: inj_on_def)
  qed
  then have "card (orig ` set ?nb2) = length ?nb2"
    using dnb by (simp add: card_image distinct_card)
  with length_ge_card [OF sub] have len1: "length ?nb2 \<le> length ?nb1" by simp
  (* so the base qualified in the first run, and was promoted there *)
  have hp1: "has_point (snd (orig base))" using hp Ab by (simp add: has_point_def)
  have un1: "\<not> truthy (snd (orig base) Fhotspot)"
    and none: "ops_for (fst base) (pass2 P r w) = []"
    using Ab un by simp_all
  have q1: "qualifies P ?C1 (orig base)"
    using hp1 un1 len1 len2 by (simp add: qualifies_def)
  have cam: "(fst base, the (lookup w (fst base))) \<in> set (cameras w)" using Ab by simp
  have "snd (orig base) Flat = the (lookup w (fst base)) Flat"
       "snd (orig base) Flon = the (lookup w (fst base)) Flon"
    by (simp_all add: orig_def)
  with hp1 self cam
  have "within_radius P (snd (orig base)) (snd (orig base))"
    by (auto simp: has_point_def within_radius_def)
  with hp1 Ab have in1: "orig base \<in> set ?nb1" by (simp add: neighbours_def)
  have nr: "\<not> is_report_id (fst (orig base))" using ids cam by auto
  have nt: "\<forall>b \<in> set ?C1. has_point (snd b) \<longrightarrow> nearby P (snd b) ?C1 \<noteq> None"
    using candidates_nearby [of P w r] cl by (auto simp: clean_def)
  from hotspot_pass_complete [of "orig base" ?C1 P ?C1 1, OF _ q1 nt] Ab in1 nr
  obtain t' where "promotion P t' (orig base) \<in> set (pass2 P r w)"
    unfolding pass2_def by blast
  then have "promotion P t' (orig base) \<in> set (ops_for (fst base) (pass2 P r w))"
    by (simp add: ops_for_def promotion_def Let_def)
  with none show False by simp
  qed
qed

subsection \<open>The iteration of a document that the first loop reaches\<close>

lemma split_at_key:
  assumes "distinct (map fst xs)" "(i, d) \<in> set xs"
  shows "xs = takeWhile (\<lambda>c. fst c \<noteq> i) xs @ (i, d) # tl (dropWhile (\<lambda>c. fst c \<noteq> i) xs)"
proof -
  let ?dw = "dropWhile (\<lambda>c. fst c \<noteq> i) xs"
  have ne: "?dw \<noteq> []" using assms(2) by (force simp: dropWhile_eq_Nil_conv)
  then have "fst (hd ?dw) = i" using hd_dropWhile [of "\<lambda>c. fst c \<noteq> i" xs] by simp
  moreover have "hd ?dw \<in> set xs" using ne by (meson hd_in_set set_dropWhileD)
  ultimately have "hd ?dw = (i, d)"
    using assms map_of_is_SomeI [OF assms(1), of i "snd (hd ?dw)"] map_of_is_SomeI [OF assms]
    by (cases "hd ?dw") auto
  with ne have "?dw = (i, d) # tl ?dw" by (metis list.collapse)
  then show ?thesis by (metis takeWhile_dropWhile_id)
qed

lemma run_pass1_reaches:
  assumes dist: "distinct (map fst (cameras w))" and ok: "\<not> failed w"
    and mem: "(i, d) \<in> set (cameras w)"
    and re: "reaches P w i" and own: "printable P (clock P 0) d"
  shows "lookup (run_pass1 P w) i = doc_after (snd (maintain P (clock P 0) i d)) (Some d)"
  using re unfolding reaches_def
  by (intro run_pass1_reached [OF dist ok _ split_at_key [OF dist mem] _ own]) simp_all

text \<open>
  Whether or not the run throws, the second pass leaves the fields it does not promote,
  deletes nothing and creates nothing.
\<close>

lemma pass2_target:
  assumes "op \<in> set (pass2 P r w)" "cam_target op = Some i"
  shows "is_promotion i op"
  using ops_for_pass2_promotions [of i P r w] assms by (simp add: ops_for_def)

lemma main_stored_field:
  assumes "f \<notin> {Fhotspot, Fconfidence, FexpiresAt, FlastSeen}"
  shows "stored_field (main P r w) i f = stored_field (run_pass1 P w) i f"
  unfolding main_run_pass1
proof (rule stored_field_exec_ops, intro ballI impI)
  fix op assume "op \<in> set (pass2 P r w)" "cam_target op = Some i"
  from pass2_target [OF this] assms show "\<not> writes_field f op \<and> op \<noteq> DeleteCam i"
    by (auto simp: is_promotion_def)
qed

lemma main_absent:
  "lookup (run_pass1 P w) i = None \<Longrightarrow> lookup (main P r w) i = None"
  unfolding main_run_pass1 by (rule lookup_exec_ops_absent)

lemma main_present:
  assumes "distinct (map fst (cameras w))" "(i, d) \<in> set (cameras w)"
    and "DeleteCam i \<notin> set (snd (maintain P (clock P 0) i d))"
  shows "lookup (main P r w) i \<noteq> None"
  unfolding main_eq
proof (rule lookup_exec_ops_present)
  show "lookup w i \<noteq> None" using lookup_Some [OF assms(1,2)] by simp
  show "DeleteCam i \<notin> set (log_date (clock P 0) @ snd (pass1 P w) @ pass2 P r w)"
    using pass1_delete [OF assms(1) _ assms(2)] assms(3) pass2_no_delete by auto
qed

text \<open>
  A field that no write to a document names keeps its stored value for as long as the
  document is stored.
\<close>

lemma stored_field_exec_ops_kept:
  "\<forall>op \<in> set ops. cam_target op = Some i \<longrightarrow> \<not> writes_field f op \<Longrightarrow>
   lookup (exec_ops ops w) i = None \<or> stored_field (exec_ops ops w) i f = stored_field w i f"
proof (induction ops arbitrary: w)
  case Nil
  then show ?case by simp
next
  case (Cons op ops)
  have step: "lookup (exec_op op w) i = None \<or> stored_field (exec_op op w) i f = stored_field w i f"
  proof (cases op)
    case (UpdateCam j p)
    have keep: "apply_patch p d f = d f" if "f \<notin> fst ` set p" for d
      using that unfolding apply_patch_def
      by (induction p arbitrary: d) (auto simp: split_def)
    show ?thesis
      using Cons.prems UpdateCam keep
      by (auto simp: stored_field_def lookup_def AList.update_conv' split: option.splits)
  next
    case (DeleteCam j)
    then show ?thesis
      by (auto simp: stored_field_def lookup_def AList.delete_conv')
  qed (auto simp: stored_field_def lookup_def)
  from step show ?case
  proof
    assume "lookup (exec_op op w) i = None"
    from lookup_exec_ops_absent [OF this] show ?thesis by simp
  next
    assume "stored_field (exec_op op w) i f = stored_field w i f"
    with Cons.IH [of "exec_op op w"] Cons.prems show ?thesis by simp
  qed
qed

lemma main_field_kept:
  assumes dist: "distinct (map fst (cameras w))" and mem: "(i, d) \<in> set (cameras w)"
    and f: "f \<notin> {Fhotspot, Fconfidence, FexpiresAt, FlastSeen}"
    and nw: "\<forall>op \<in> set (snd (maintain P (clock P 0) i d)). \<not> writes_field f op"
  shows "lookup (main P r w) i = None \<or> stored_field (main P r w) i f = Some (d f)"
proof -
  have "\<not> writes_field f op"
    if op: "op \<in> set (log_date (clock P 0) @ snd (pass1 P w) @ pass2 P r w)"
       "cam_target op = Some i" for op
  proof -
    from op consider "op \<in> set (snd (pass1 P w))" | "op \<in> set (pass2 P r w)" by auto
    then show ?thesis
    proof cases
      case 1
      with op(2) have "op \<in> set (ops_for i (snd (per_doc_pass P (clock P 0) (cameras w))))"
        by (simp add: ops_for_def pass1_def)
      then have "op \<in> set (snd (maintain P (clock P 0) i d))"
        unfolding ops_for_per_doc_pass [OF dist mem] by (simp add: ops_for_def)
      with nw show ?thesis by blast
    next
      case 2
      from pass2_target [OF this op(2)] f show ?thesis by (auto simp: is_promotion_def)
    qed
  qed
  then have "lookup (main P r w) i = None \<or> stored_field (main P r w) i f = stored_field w i f"
    unfolding main_eq by (intro stored_field_exec_ops_kept) blast
  then show ?thesis using lookup_Some [OF dist mem] by (simp add: stored_field_def)
qed

lemma run_pass1_field_kept:
  assumes dist: "distinct (map fst (cameras w))" and mem: "(i, d) \<in> set (cameras w)"
    and nw: "\<forall>op \<in> set (snd (maintain P (clock P 0) i d)).
               \<not> writes_field f op \<and> op \<noteq> DeleteCam i"
  shows "stored_field (run_pass1 P w) i f = Some (d f)"
proof -
  have "\<not> writes_field f op \<and> op \<noteq> DeleteCam i"
    if op: "op \<in> set (log_date (clock P 0) @ snd (pass1 P w))" "cam_target op = Some i" for op
  proof -
    from op have "op \<in> set (ops_for i (snd (per_doc_pass P (clock P 0) (cameras w))))"
      by (auto simp: ops_for_def pass1_def)
    then have "op \<in> set (snd (maintain P (clock P 0) i d))"
      unfolding ops_for_per_doc_pass [OF dist mem] by (simp add: ops_for_def)
    with nw show ?thesis by blast
  qed
  then have "stored_field (run_pass1 P w) i f = stored_field w i f"
    unfolding run_pass1_def by (intro stored_field_exec_ops) blast
  then show ?thesis using lookup_Some [OF dist mem] by (simp add: stored_field_def)
qed

text \<open>When the iteration of a document deletes it, and when it writes nothing.\<close>

lemma maintain_mem_expiry_read:
  "type_of d \<noteq> JStr ''fixed_camera'' \<Longrightarrow>
   fst (maintain P now i d) FexpiresAt = expiry_read P now d"
  by (simp add: maintain_other fst_blocks Let_def split_def expiry_read_def
        default_expiry_def ensure_expiresAt_def ensure_timestamp_def
        ensure_confidence_def ensure_lastSeen_def)

lemma maintain_delete_iff:
  "DeleteCam i \<in> set (snd (maintain P now i d)) \<longleftrightarrow> due_for_deletion P now d"
proof
  assume del: "DeleteCam i \<in> set (snd (maintain P now i d))"
  note d = maintain_delete [OF del]
  have "DeleteCam i \<in> set (preserve_patch P now i (count_of P d) (fst (maintain P now i d)))"
    using del d(1) by (auto simp: maintain_other Let_def snd_blocks split: if_splits)
  then have "num_le (count_of P d) (Fin 0) \<or> found_expired P now d"
    using maintain_mem_expiry_read [OF d(1), of P now i]
    by (auto simp: preserve_patch_def Let_def found_expired_def mark_removed_def
             split: if_splits)
  with d show "due_for_deletion P now d" by (simp add: due_for_deletion_def)
next
  assume due: "due_for_deletion P now d"
  then have fx: "type_of d \<noteq> JStr ''fixed_camera''" by (simp add: due_for_deletion_def)
  let ?d4 = "fst (maintain P now i d)"
  have hs: "\<not> truthy (?d4 Fhotspot)"
    using due by (simp add: maintain_mem_hotspot due_for_deletion_def)
  have ts: "number_or (ToNumber P (?d4 Ftimestamp)) 0 < hotspotWindowCutoff now"
    using due by (simp add: maintain_mem_timestamp timestamp_ms_def due_for_deletion_def)
  have "preserve_patch P now i (count_of P d) ?d4 = [DeleteCam i]"
    using due hs ts maintain_mem_expiry_read [OF fx, of P now i]
    by (auto simp: preserve_patch_def Let_def found_expired_def due_for_deletion_def)
  then show "DeleteCam i \<in> set (snd (maintain P now i d))"
    using fx by (simp add: maintain_other Let_def snd_blocks)
qed

lemma maintain_settled_iff:
  assumes "truthy (d Fremoved)"
  shows "maintain P now i d = (d, []) \<longleftrightarrow> settled P now d"
proof (cases "type_of d = JStr ''fixed_camera''")
  case True
  then show ?thesis using assms
    by (auto simp: settled_def maintain_fixed fst_blocks snd_blocks
                   ensure_timestamp_def ensure_confidence_def fixed_camera_def Let_def
             split: if_splits)
next
  case False
  show ?thesis
  proof
    assume st: "settled P now d"
    then have "maintain P now i d = (d, [])"
      using False assms
      by (auto simp: settled_def due_for_deletion_def found_expired_def expiry_read_def
                     maintain_other Let_def fst_blocks snd_blocks preserve_patch_def
                     timestamp_ms_def split: if_splits)
    then show "maintain P now i d = (d, [])" .
  next
    assume m: "maintain P now i d = (d, [])"
    then have e: "snd (maintain P now i d) = []" "fst (maintain P now i d) = d" by simp_all
    have a: "truthy (d Ftimestamp)" "d Fconfidence \<noteq> JUndefined" "d Fconfidence \<noteq> JNull"
        "truthy (d FexpiresAt)" "truthy (d FlastSeen)"
      using e(1) False
      by (auto simp: maintain_other Let_def snd_blocks fst_blocks ensure_timestamp_def
            ensure_confidence_def ensure_expiresAt_def ensure_lastSeen_def split: if_splits)
    have pp: "preserve_patch P now i (count_of P d) d = []"
      using e False by (simp add: maintain_other Let_def snd_blocks)
    have nd: "\<not> due_for_deletion P now d"
      using maintain_delete_iff [of i P now d] e(1) by simp
    have "truthy (d Fhotspot) \<Longrightarrow> \<not> found_expired P now d"
      using pp a by (auto simp: preserve_patch_def Let_def found_expired_def expiry_read_def
                          split: if_splits)
    with a nd False show "settled P now d" by (simp add: settled_def)
  qed
qed

section \<open>The claims\<close>

subsection \<open>C1: a cluster of recent mobile records\<close>

text \<open>
  Claim C1 says that a cluster leaves exactly one summary, because a record promoted by
  the first cluster is skipped as a seed afterwards. The promotion writes go to the store
  only; the loop tests the hotspot flag of the in-memory array, which they do not change.
  So each of the three reports below seeds the cluster again, and each leaves a summary
  under its own grid cell.
\<close>

theorem one_summary_per_seed_cell:
  "within_radius P0 (report (515 / 10) 1 1699999000000 (JNum (Fin 2)))
                    (report (51501 / 1000) 1 1699999000000 (JNum (Fin 2)))
   \<and> \<not> failed (main P0 None w1)
   \<and> map_option report_count
        (camera_hotspots (main P0 None w1) (Fixed False 515000, Fixed False 10000)) = Some 3
   \<and> map_option report_count
        (camera_hotspots (main P0 None w1) (Fixed False 515005, Fixed False 10000)) = Some 3
   \<and> map_option report_count
        (camera_hotspots (main P0 None w1) (Fixed False 515010, Fixed False 10000)) = Some 3"
  by (simp add: w1_def example_defs pass1_eval run_eval within_radius_def floor_rat_numeral_div)

text \<open>
  Claim C1 as amended. Let S be at least HOTSPOT_THRESHOLD stored mobile documents whose
  ids are not report ids, with truthy latitude, longitude and timestamp, timestamps not
  older than the window cutoff, and pairwise distance at most HOTSPOT_RADIUS_M, in a clean
  store, on which no log line and no distance computation throws. The run does not
  throw. Afterwards every member is stored and flagged hotspot, with the value
  true when some member was not flagged before. For every member that was not flagged
  before, a summary exists under that member's own grid cell; it was written by a
  qualifying seed of that cell, its report_count is the number of candidates within the
  radius of that seed, which is at least HOTSPOT_THRESHOLD, and is the size of S when
  the members of S are the only candidates with a point.
\<close>

theorem cluster_members_promoted:
  assumes dist: "distinct (map fst (cameras w))" and ok: "\<not> failed w"
    and cl: "clean P r w"
    and sub: "S \<subseteq> set (cameras w)"
    and N: "HOTSPOT_THRESHOLD \<le> card S"
    and mob: "\<forall>(i, d) \<in> S. type_of d = JStr ''mobile_camera''
          \<and> truthy (d Flat) \<and> truthy (d Flon) \<and> truthy (d Ftimestamp)
          \<and> num_ge (ToNumber P (d Ftimestamp)) (Fin (hotspotWindowCutoff (clock P 0)))"
    and ids: "\<forall>(i, d) \<in> S. \<not> is_report_id i"
    and near: "\<forall>(i, d) \<in> S. \<forall>(j, e) \<in> S. within_radius P d e"
  shows "\<not> failed (main P r w)
     \<and> (\<forall>(i, d) \<in> S. \<exists>d'. lookup (main P r w) i = Some d' \<and> truthy (d' Fhotspot)
            \<and> ((\<exists>(j, e) \<in> S. \<not> truthy (e Fhotspot)) \<longrightarrow> d' Fhotspot = JBool True))
     \<and> (\<forall>(i, d) \<in> S. \<not> truthy (d Fhotspot) \<longrightarrow>
           (\<exists>h b. camera_hotspots (main P r w) (hotspotId_of P d) = Some h
              \<and> b \<in> set (candidates P r w) \<and> qualifies P (candidates P r w) b
              \<and> hotspotId_of P (snd b) = hotspotId_of P d
              \<and> report_count h = length (neighbours P (snd b) (candidates P r w))
              \<and> HOTSPOT_THRESHOLD \<le> report_count h
              \<and> (length (filter (\<lambda>n. has_point (snd n)) (candidates P r w)) = card S
                  \<longrightarrow> report_count h = card S)))"
proof -
  let ?now = "clock P 0"
  let ?C = "candidates P r w"
  let ?mem = "\<lambda>c. (fst c, fst (maintain P ?now (fst c) (snd c)))"
  have nf: "\<not> failed (main P r w)" using dist ok cl by (rule main_not_failed)
  have nt: "\<forall>b \<in> set ?C. has_point (snd b) \<longrightarrow> nearby P (snd b) ?C \<noteq> None"
    using candidates_nearby [of P w r] cl by (auto simp: clean_def)
  (* every member is flagged after the run *)
  have flagged: "\<exists>d'. lookup (main P r w) i = Some d' \<and> truthy (d' Fhotspot)
            \<and> ((\<exists>(j, e) \<in> S. \<not> truthy (e Fhotspot)) \<longrightarrow> d' Fhotspot = JBool True)"
    if m: "(i, d) \<in> S" for i d
  proof -
    have md: "type_of d = JStr ''mobile_camera''" "truthy (d Ftimestamp)"
        "num_ge (ToNumber P (d Ftimestamp)) (Fin (hotspotWindowCutoff ?now))"
      using mob m by auto
    from member_survives_pass1 [OF md, of i] obtain s where
      s: "doc_after (snd (maintain P ?now i d)) (Some d) = Some s" "s Fhotspot = d Fhotspot"
      by blast
    have mem: "(i, d) \<in> set (cameras w)" using sub m by auto
    from main_lookup_promoted [OF dist ok mem s(1) cl] obtain s' where
      s': "lookup (main P r w) i = Some s'"
          "s' Fhotspot = (if ops_for i (pass2 P r w) = [] then s Fhotspot else JBool True)"
      by blast
    have promoted: "ops_for i (pass2 P r w) \<noteq> []" if "(j, e) \<in> S" "\<not> truthy (e Fhotspot)" for j e
    proof -
      note q = cluster_seed_qualifies [OF dist sub N mob near that, of r]
      have "(i, fst (maintain P ?now i d)) \<in> set (neighbours P (fst (maintain P ?now j e)) ?C)"
        using cluster_members_nearby [OF sub mob near that(1) m] .
      moreover have "\<not> is_report_id i" using ids m by auto
      ultimately obtain t' where
        "promotion P t' (i, fst (maintain P ?now i d)) \<in> set (pass2 P r w)"
        using hotspot_pass_complete [OF q(3) q(2) nt, of 1] unfolding pass2_def by fastforce
      moreover have "cam_target (promotion P t' (i, fst (maintain P ?now i d))) = Some i"
        by (simp add: promotion_def Let_def)
      ultimately show ?thesis by (auto simp: ops_for_def filter_empty_conv)
    qed
    show ?thesis
    proof (cases "\<exists>(j, e) \<in> S. \<not> truthy (e Fhotspot)")
      case True
      then have "ops_for i (pass2 P r w) \<noteq> []" using promoted by blast
      with s' show ?thesis by simp
    next
      case False
      then have "truthy (d Fhotspot)" using m by blast
      with s' s(2) False show ?thesis by auto
    qed
  qed
  (* every unflagged member is a seed and leaves a summary under its own cell *)
  have summary: "\<exists>h b. camera_hotspots (main P r w) (hotspotId_of P d) = Some h
              \<and> b \<in> set ?C \<and> qualifies P ?C b
              \<and> hotspotId_of P (snd b) = hotspotId_of P d
              \<and> report_count h = length (neighbours P (snd b) ?C)
              \<and> HOTSPOT_THRESHOLD \<le> report_count h
              \<and> (length (filter (\<lambda>n. has_point (snd n)) ?C) = card S
                  \<longrightarrow> report_count h = card S)"
    if m: "(i, d) \<in> S" and un: "\<not> truthy (d Fhotspot)" for i d
  proof -
    note q = cluster_seed_qualifies [OF dist sub N mob near m un, of r]
    have key: "hotspotId_of P (fst (maintain P ?now i d)) = hotspotId_of P d"
      by (simp add: hotspotId_of_def)
    from hotspot_pass_complete [OF q(3) q(2) nt, of 1] obtain t' where
      "SetHotspot (hotspotId_of P d)
         (hotspotDoc_of P t' (fst (maintain P ?now i d)) (neighbours P (fst (maintain P ?now i d)) ?C))
       \<in> set (pass2 P r w)"
      unfolding pass2_def by (auto simp: key)
    then have "SetHotspot (hotspotId_of P d)
         (hotspotDoc_of P t' (fst (maintain P ?now i d)) (neighbours P (fst (maintain P ?now i d)) ?C))
       \<in> set (log_date ?now @ snd (pass1 P w) @ pass2 P r w)" by simp
    from exec_ops_hotspot_last [OF nf [unfolded main_eq] this] obtain h where
      h: "SetHotspot (hotspotId_of P d) h \<in> set (log_date ?now @ snd (pass1 P w) @ pass2 P r w)"
         "camera_hotspots (main P r w) (hotspotId_of P d) = Some h"
      by (auto simp: main_eq)
    have "SetHotspot (hotspotId_of P d) h \<notin> set (snd (pass1 P w))"
      using maintain_target by (fastforce simp: pass1_def per_doc_pass_mem)
    with h(1) have "SetHotspot (hotspotId_of P d) h \<in> set (pass2 P r w)" by simp
    from hotspot_pass_mem [OF this [unfolded pass2_def]] obtain b t'' where
      b: "b \<in> set ?C" "qualifies P ?C b"
         "SetHotspot (hotspotId_of P d) h =
            SetHotspot (hotspotId_of P (snd b)) (hotspotDoc_of P t'' (snd b) (neighbours P (snd b) ?C))"
      by (auto simp: promotion_def Let_def)
    then have kb: "hotspotId_of P (snd b) = hotspotId_of P d"
      and rc: "report_count h = length (neighbours P (snd b) ?C)"
      by (simp_all add: hotspotDoc_of_def)
    have thr: "HOTSPOT_THRESHOLD \<le> report_count h"
      using b(2) rc by (simp add: qualifies_def)
    have only: "report_count h = card S"
      if cnt: "length (filter (\<lambda>n. has_point (snd n)) ?C) = card S"
    proof -
      let ?Pt = "filter (\<lambda>n. has_point (snd n)) ?C"
      have inS: "?mem ` S \<subseteq> set ?Pt"
      proof
        fix x assume "x \<in> ?mem ` S"
        then obtain j e where je: "(j, e) \<in> S" "x = (j, fst (maintain P ?now j e))" by auto
        have "x \<in> set ?C" using recent_member_candidate [of j e w P r] sub mob je by auto
        moreover have "has_point (snd x)"
          using member_has_point [of e P ?now j] mob je by auto
        ultimately show "x \<in> set ?Pt" by simp
      qed
      have cS: "card (?mem ` S) = card S" using cluster_card [OF dist sub] .
      have "card (set ?Pt) \<le> card (?mem ` S)"
        using card_length [of ?Pt] cnt cS by simp
      with inS have eq: "?mem ` S = set ?Pt"
        by (intro card_seteq) auto
      have "b \<in> set ?Pt" using b(1,2) by (simp add: qualifies_def)
      with eq have "b \<in> ?mem ` S" by simp
      then obtain c where c: "c \<in> S" "b = ?mem c" by blast
      then obtain j e where je: "(j, e) \<in> S" "b = (j, fst (maintain P ?now j e))"
        by (cases c) auto
      have "?mem ` S \<subseteq> set (neighbours P (snd b) ?C)"
        using cluster_members_nearby [OF sub mob near je(1)] je(2) by auto
      from length_ge_card [OF this] cS have ge: "card S \<le> length (neighbours P (snd b) ?C)" by simp
      have nb_eq: "neighbours P (snd b) ?C = filter (\<lambda>n. within_radius P (snd b) (snd n)) ?Pt"
        by (simp add: neighbours_def conj_commute)
      have "length (neighbours P (snd b) ?C) \<le> length ?Pt"
        unfolding nb_eq by (rule length_filter_le)
      with ge cnt rc show ?thesis by simp
    qed
    from h(2) b(1,2) kb rc thr only show ?thesis by blast
  qed
  from nf flagged summary show ?thesis by blast
qed

theorem cluster_members_promoted_witness:
  "\<not> failed (main P0 None w1)
   \<and> stored_field (main P0 None w1) ''a'' Fhotspot = Some (JBool True)
   \<and> stored_field (main P0 None w1) ''b'' Fhotspot = Some (JBool True)
   \<and> stored_field (main P0 None w1) ''c'' Fhotspot = Some (JBool True)"
proof -
  let ?S = "set (cameras w1)"
  have a: "distinct (map fst (cameras w1))" "\<not> failed w1"
    by (simp_all add: w1_def store_def)
  have c: "clean P0 None w1"
    by (simp add: clean_def printable_store_def printable_clock_def printable_def locatable_def
          valid_time_def reportDocs_def w1_def example_defs PRESERVE_HOTSPOT_DAYS_def MS_DAY_def)
  have e: "?S \<subseteq> set (cameras w1)" by simp
  have n: "HOTSPOT_THRESHOLD \<le> card ?S"
    by (simp add: w1_def store_def HOTSPOT_THRESHOLD_def)
  have m: "\<forall>(i, d) \<in> ?S. type_of d = JStr ''mobile_camera''
          \<and> truthy (d Flat) \<and> truthy (d Flon) \<and> truthy (d Ftimestamp)
          \<and> num_ge (ToNumber P0 (d Ftimestamp)) (Fin (hotspotWindowCutoff (clock P0 0)))"
    by (simp add: w1_def example_defs type_of_def js_or_def hotspotWindowCutoff_def
          HOTSPOT_WINDOW_DAYS_def MS_DAY_def)
  have i: "\<forall>(i, d) \<in> ?S. \<not> is_report_id i"
    by (simp add: w1_def store_def is_report_id_def)
  have d: "\<forall>(i, d) \<in> ?S. \<forall>(j, e) \<in> ?S. within_radius P0 d e"
    by (simp add: w1_def example_defs within_radius_def HOTSPOT_RADIUS_M_def)
  have u: "\<exists>(j, e) \<in> ?S. \<not> truthy (e Fhotspot)"
    by (simp add: w1_def example_defs)
  have s: "(''a'', report (515 / 10) 1 1699999000000 (JNum (Fin 2))) \<in> ?S"
      "(''b'', report (515005 / 10000) 1 1699999000000 (JNum (Fin 2))) \<in> ?S"
      "(''c'', report (51501 / 1000) 1 1699999000000 (JNum (Fin 2))) \<in> ?S"
    by (simp_all add: w1_def store_def)
  from cluster_members_promoted [OF a c e n m i d] u
  have "\<not> failed (main P0 None w1)"
    and "\<forall>(i, d) \<in> ?S. \<exists>d'. lookup (main P0 None w1) i = Some d' \<and> d' Fhotspot = JBool True"
    by blast+
  with s show ?thesis
    by (fastforce simp: stored_field_def)
qed

subsection \<open>C2: running the job twice\<close>

text \<open>
  Claim C2 says that a second run changes nothing. A raw report is never flagged hotspot,
  so it seeds its cluster on every run: the first run promotes the camera document from
  confidence 70 to 90, the second run promotes it again, to 100.
\<close>

theorem second_run_promotes_again:
  "\<not> failed (main P0 reports2 (main P0 reports2 w2))
   \<and> stored_field (main P0 reports2 w2) ''a'' Fconfidence = Some (JNum (Fin 90))
   \<and> stored_field (main P0 reports2 (main P0 reports2 w2)) ''a'' Fconfidence
       = Some (JNum (Fin 100))"
  by (simp add: w2_def reports2_def example_defs pass1_eval run_eval)

text \<open>
  Claim C2 as amended. The writes of a run are those of \<open>pass1\<close> followed by those of
  \<open>pass2\<close>. A second run at the same instant, on the store that the first run has
  produced, does not throw, promotes nothing, writes no summary and deletes nothing; the
  one write it may issue is an expiry of 0; and it leaves every stored document and every
  summary as the first run left it. This holds when the first run starts on a clean
  store, on which no log line and no distance computation throws, the query for raw
  reports returns none and no camera document has an id that starts with \<^verbatim>\<open>r_\<close>, a stored lastSeen that is
  not falsy reads as a number, a point lies within the radius of itself, no reading of
  the clock is below the first one, and the run happens more than the hotspot window
  after the epoch.
\<close>

theorem second_run_changes_nothing:
  assumes dist: "distinct (map fst (cameras w))" and ok: "\<not> failed w"
    and cl: "clean P r w"
    and late: "0 < hotspotWindowCutoff (clock P 0)"
    and mono: "\<forall>t. clock P 0 \<le> clock P t"
    and norep: "reportDocs r = []"
    and ids: "\<forall>(i, d) \<in> set (cameras w). \<not> is_report_id i"
    and self: "\<forall>(i, d) \<in> set (cameras w). truthy (d Flat) \<and> truthy (d Flon) \<longrightarrow>
          within_radius P d d"
    and num: "\<forall>(i, d) \<in> set (cameras w). truthy (d FlastSeen) \<longrightarrow> ToNumber P (d FlastSeen) \<noteq> NaN"
  shows "\<not> failed (main P r (main P r w))
     \<and> pass2 P r (main P r w) = []
     \<and> (\<forall>op \<in> set (snd (pass1 P (main P r w))).
           \<exists>i. op = UpdateCam i [(FexpiresAt, JNum (Fin 0))])
     \<and> (\<forall>i. lookup (main P r (main P r w)) i = lookup (main P r w) i)
     \<and> camera_hotspots (main P r (main P r w)) = camera_hotspots (main P r w)"
proof -
  let ?now = "clock P 0"
  let ?w1 = "main P r w"
  have d1: "distinct (map fst (cameras ?w1))"
    unfolding main_eq using dist by (rule distinct_exec_ops)
  have f1: "\<not> failed ?w1" using dist ok cl by (rule main_not_failed)
  have c1: "clean P r ?w1" using dist ok cl late mono num by (rule rerun_clean)
  then have ps1: "printable_store P ?w1" by (simp add: clean_def)
  have p2: "pass2 P r ?w1 = []"
    using dist ok cl late mono norep ids self num by (rule rerun_no_seed)
  then have run2: "main P r ?w1 = run_pass1 P ?w1"
    by (simp add: main_run_pass1 [of P r ?w1])
  have entry: "doc_after (snd (maintain P ?now i s1)) (Some s1) = Some s1
      \<and> (\<forall>op \<in> set (snd (maintain P ?now i s1)). op = UpdateCam i [(FexpiresAt, JNum (Fin 0))])"
    if "(i, s1) \<in> set (cameras ?w1)" for i s1
  proof -
    from main_origin [OF dist ok cl that] obtain d s where
      d: "(i, d) \<in> set (cameras w)"
         "doc_after (snd (maintain P ?now i d)) (Some d) = Some s"
         "doc_after (ops_for i (pass2 P r w)) (Some s) = Some s1"
      by blast
    have "truthy (d FlastSeen) \<longrightarrow> ToNumber P (d FlastSeen) \<noteq> NaN"
      using num d(1) by auto
    from rerun_entry(1,7) [OF dist late mono this d] show ?thesis by simp
  qed
  have lk: "lookup (main P r ?w1) i = lookup ?w1 i" for i
    unfolding run2
  proof (rule run_pass1_fixpoint [OF d1 f1 ps1])
    fix j s1 assume "(j, s1) \<in> set (cameras ?w1)"
    from entry [OF this]
    show "doc_after (snd (maintain P ?now j s1)) (Some s1) = Some s1" by simp
  qed
  have wr: "\<exists>i. op = UpdateCam i [(FexpiresAt, JNum (Fin 0))]"
    if "op \<in> set (snd (pass1 P ?w1))" for op
  proof -
    from that obtain c where c: "c \<in> set (cameras ?w1)"
        "op \<in> set (snd (maintain P ?now (fst c) (snd c)))"
      by (auto simp: pass1_def per_doc_pass_mem)
    from entry [of "fst c" "snd c"] c show ?thesis by auto
  qed
  have nf: "\<not> failed (main P r ?w1)"
    unfolding run2 using d1 f1 ps1 by (rule run_pass1_not_failed)
  have hs: "camera_hotspots (main P r ?w1) = camera_hotspots ?w1"
    unfolding run2 by (rule run_pass1_hotspots)
  from nf p2 wr lk hs show ?thesis by blast
qed

theorem second_run_changes_nothing_witness:
  "stored_field (main P0 None w7) ''a'' Fconfidence = Some (JNum (Fin 90))
   \<and> lookup (main P0 None w7) ''old'' = None
   \<and> \<not> failed (main P0 None (main P0 None w7))
   \<and> lookup (main P0 None (main P0 None w7)) ''a'' = lookup (main P0 None w7) ''a''"
proof -
  have a: "distinct (map fst (cameras w7))" "\<not> failed w7"
    by (simp_all add: w7_def store_def)
  have a': "0 < hotspotWindowCutoff (clock P0 0)" "\<forall>t. clock P0 0 \<le> clock P0 t"
      "reportDocs None = []"
    by (simp_all add: P0_def hotspotWindowCutoff_def HOTSPOT_WINDOW_DAYS_def
          MS_DAY_def reportDocs_def)
  have b: "\<forall>(i, d) \<in> set (cameras w7). \<not> is_report_id i"
    by (simp add: w7_def store_def is_report_id_def)
  have k: "clean P0 None w7"
    by (simp add: clean_def printable_store_def printable_clock_def printable_def locatable_def
          valid_time_def reportDocs_def w7_def example_defs PRESERVE_HOTSPOT_DAYS_def MS_DAY_def)
  have c: "\<forall>(i, d) \<in> set (cameras w7). truthy (d Flat) \<and> truthy (d Flon) \<longrightarrow>
          within_radius P0 d d"
    by (simp add: w7_def example_defs within_radius_def HOTSPOT_RADIUS_M_def)
  have d: "\<forall>(i, d) \<in> set (cameras w7). truthy (d FlastSeen) \<longrightarrow> ToNumber P0 (d FlastSeen) \<noteq> NaN"
    by (simp add: w7_def example_defs)
  have e: "stored_field (main P0 None w7) ''a'' Fconfidence = Some (JNum (Fin 90))"
      "lookup (main P0 None w7) ''old'' = None"
    by (simp_all add: w7_def example_defs pass1_eval run_eval)
  from second_run_changes_nothing [OF a k a' b c d] e show ?thesis by blast
qed

subsection \<open>C3: dead records are deleted outside the window and hidden inside it\<close>

text \<open>
  Claim C3 says that a dead record whose timestamp lies within the window is hidden and
  not deleted. The loop compares \<^verbatim>\<open>Number(d.timestamp) || 0\<close> with the cutoff, so a
  timestamp that does not read as a number counts as the epoch: the dead report below,
  a quarter of an hour old with its timestamp stored as a date text, is deleted.
\<close>

theorem recent_dead_record_deleted:
  "cameras wt = [(''t'', (report 52 1 1699999000000 (JNum (Fin 0)))
                           (Ftimestamp := JStr ''2023-11-14T21:56:40.000Z''))]
   \<and> clock P0 0 = 1700000000000
   \<and> \<not> failed (main P0 None wt)
   \<and> lookup (main P0 None wt) ''t'' = None"
  by (simp add: wt_def example_defs pass1_eval run_eval)

text \<open>
  Claim C3 as amended. Take a document that is not a fixed camera, whose count is at most
  0 and whose hotspot flag is not set, and let the first loop reach it and run its
  iteration to the end. If the number that the loop reads from the timestamp
  (\<^verbatim>\<open>Number(d.timestamp) || 0\<close>, after a falsy timestamp has been replaced by now) is
  below now minus the lookback window, the document is gone after the run; otherwise the
  document is still stored after the run and its removed flag is set (to true, unless it
  already carried a truthy value, which is kept).
\<close>

theorem dead_record_deleted_or_hidden:
  assumes "distinct (map fst (cameras w))" "\<not> failed w" "(i, d) \<in> set (cameras w)"
    and "reaches P w i" "printable P (clock P 0) d"
    and "type_of d \<noteq> JStr ''fixed_camera''"
    and "num_le (count_of P d) (Fin 0)"
    and "\<not> truthy (d Fhotspot)"
  shows "if timestamp_ms P (clock P 0) d < hotspotWindowCutoff (clock P 0)
      then lookup (main P r w) i = None
      else \<exists>d'. lookup (main P r w) i = Some d'
             \<and> d' Fremoved = (if truthy (d Fremoved) then d Fremoved else JBool True)"
proof -
  let ?now = "clock P 0"
  let ?d4 = "fst (maintain P ?now i d)"
  have hs: "\<not> truthy (?d4 Fhotspot)"
    using assms(6,8) by (simp add: maintain_mem_hotspot)
  have ts: "number_or (ToNumber P (?d4 Ftimestamp)) 0 = timestamp_ms P ?now d"
    by (simp add: maintain_mem_timestamp timestamp_ms_def)
  have rm: "?d4 Fremoved = d Fremoved"
    by (simp add: maintain_mem_other)
  have after: "doc_after (snd (maintain P ?now i d)) (Some d) =
     (if timestamp_ms P ?now d < hotspotWindowCutoff ?now then None
      else if \<not> truthy (d Fremoved)
      then Some (?d4(Fremoved := JBool True, FremovedByWorker := JBool True,
                     FlastSeen := JNum (Fin ?now)))
      else Some ?d4)"
    unfolding after_maintain_other [OF assms(6)] doc_after_preserve_patch
    using hs assms(7) by (simp add: Let_def ts rm)
  have p1: "lookup (run_pass1 P w) i = doc_after (snd (maintain P ?now i d)) (Some d)"
    using assms(1-5) by (rule run_pass1_reaches)
  show ?thesis
  proof (cases "timestamp_ms P ?now d < hotspotWindowCutoff ?now")
    case True
    with after p1 have "lookup (run_pass1 P w) i = None" by simp
    from main_absent [OF this] True show ?thesis by simp
  next
    case False
    then have nd: "DeleteCam i \<notin> set (snd (maintain P ?now i d))"
      using maintain_delete(3) [of i P ?now i d] by blast
    from main_present [OF assms(1,3) nd] obtain d' where
      d': "lookup (main P r w) i = Some d'" by blast
    have "stored_field (main P r w) i Fremoved = stored_field (run_pass1 P w) i Fremoved"
      by (rule main_stored_field) simp
    with d' p1 after False
    have "d' Fremoved = (if truthy (d Fremoved) then d Fremoved else JBool True)"
      by (simp add: stored_field_def rm split: if_splits)
    with d' False show ?thesis by simp
  qed
qed

theorem dead_record_deleted_or_hidden_witness:
  "lookup (main P0 None w3) ''old'' = None
   \<and> (\<exists>d'. lookup (main P0 None w3) ''new'' = Some d' \<and> d' Fremoved = JBool True)"
  using dead_record_deleted_or_hidden [of w3 "''old''" "report 51 1 1690000000000 (JNum (Fin 0))" P0 None]
        dead_record_deleted_or_hidden [of w3 "''new''" "report 52 1 1699999000000 (JNum (Fin 0))" P0 None]
  by (simp add: w3_def example_defs type_of_def js_or_def count_of_def timestamp_ms_def
        hotspotWindowCutoff_def HOTSPOT_WINDOW_DAYS_def MS_DAY_def reaches_def
        printable_clock_def printable_def valid_time_def PRESERVE_HOTSPOT_DAYS_def)

subsection \<open>C4: an expired hotspot is extended, a hotspot is never deleted\<close>

text \<open>
  Claim C4. A document whose hotspot flag is set is still stored after the run, however
  the run ends. When the first loop reaches it and runs its iteration to the end, and it
  is a mobile or other document which the expiry test of that iteration finds expired
  (the test reads the stored expiresAt, or the default written in the same iteration when
  there was none; fixed cameras leave the loop body before the test), the first pass
  leaves it with expiresAt = now + PRESERVE_HOTSPOT_DAYS days and lastSeen = now.
\<close>

theorem hotspot_extended_never_deleted:
  assumes "distinct (map fst (cameras w))" "(i, d) \<in> set (cameras w)"
    and "truthy (d Fhotspot)"
  shows "lookup (main P r w) i \<noteq> None
     \<and> (\<not> failed w \<and> reaches P w i \<and> printable P (clock P 0) d
          \<and> type_of d \<noteq> JStr ''fixed_camera'' \<and> found_expired P (clock P 0) d
        \<longrightarrow> stored_field (run_pass1 P w) i FexpiresAt
              = Some (JNum (Fin (clock P 0 + PRESERVE_HOTSPOT_DAYS * MS_DAY)))
            \<and> stored_field (run_pass1 P w) i FlastSeen = Some (JNum (Fin (clock P 0))))"
proof -
  let ?now = "clock P 0"
  let ?d4 = "fst (maintain P ?now i d)"
  have "DeleteCam i \<notin> set (snd (maintain P ?now i d))"
    using maintain_delete(4) [of i P ?now i d] assms(3) by blast
  from main_present [OF assms(1,2) this]
  have kept: "lookup (main P r w) i \<noteq> None" .
  have ext: "stored_field (run_pass1 P w) i FexpiresAt
              = Some (JNum (Fin (?now + PRESERVE_HOTSPOT_DAYS * MS_DAY)))
            \<and> stored_field (run_pass1 P w) i FlastSeen = Some (JNum (Fin ?now))"
    if ok: "\<not> failed w" and re: "reaches P w i" and own: "printable P ?now d"
      and nf: "type_of d \<noteq> JStr ''fixed_camera''" and ex: "found_expired P ?now d"
  proof -
    have hs: "truthy (?d4 Fhotspot)" using assms(3) by (simp add: maintain_mem_hotspot)
    have er: "?d4 FexpiresAt = expiry_read P ?now d"
      using nf by (simp add: maintain_other fst_blocks Let_def split_def expiry_read_def
                     default_expiry_def ensure_expiresAt_def ensure_timestamp_def
                     ensure_confidence_def ensure_lastSeen_def)
    have "doc_after (snd (maintain P ?now i d)) (Some d) =
       Some (?d4(FexpiresAt := JNum (Fin (?now + PRESERVE_HOTSPOT_DAYS * MS_DAY)),
                 FlastSeen := JNum (Fin ?now)))"
      unfolding after_maintain_other [OF nf] doc_after_preserve_patch
      using hs ex by (simp add: Let_def er found_expired_def)
    with run_pass1_reaches [OF assms(1) ok assms(2) re own]
    show ?thesis by (simp add: stored_field_def)
  qed
  from kept ext show ?thesis by blast
qed

theorem hotspot_extended_never_deleted_witness:
  "lookup (main P0 None w4) ''h'' \<noteq> None
   \<and> stored_field (run_pass1 P0 w4) ''h'' FexpiresAt = Some (JNum (Fin (1700000000000 + 10 * 86400000)))
   \<and> stored_field (run_pass1 P0 w4) ''h'' FlastSeen = Some (JNum (Fin 1700000000000))"
  using hotspot_extended_never_deleted [of w4 "''h''" "(report 51 1 1699000000000 (JNum (Fin 0)))(Fhotspot := JBool True)" P0 None]
  by (simp add: w4_def example_defs type_of_def js_or_def PRESERVE_HOTSPOT_DAYS_def MS_DAY_def
        reaches_def printable_clock_def printable_def valid_time_def found_expired_def
        expiry_read_def)

subsection \<open>C5: fixed cameras are never deleted\<close>

text \<open>
  A fixed camera is still stored after the run, whatever its count and however the run
  ends, and the run leaves its fields other than timestamp, confidence, hotspot, removed,
  removedByWorker and lastSeen as they are. When the first loop reaches a fixed camera
  whose count is at most FIXED_REMOVE_THRESHOLD and that is not yet removed, the camera
  ends the run with removed = true, removedByWorker = true and lastSeen = now.
\<close>

lemma fixed_camera_kept:
  assumes "distinct (map fst (cameras w))" "(i, d) \<in> set (cameras w)"
    and "type_of d = JStr ''fixed_camera''"
  shows "\<exists>d'. lookup (main P r w) i = Some d'
           \<and> (\<forall>f. f \<notin> {Ftimestamp, Fconfidence, Fhotspot, Fremoved, FremovedByWorker, FlastSeen}
                  \<longrightarrow> d' f = d f)"
    and "\<not> failed w \<Longrightarrow> reaches P w i \<Longrightarrow>
         num_le (count_of P d) (Fin FIXED_REMOVE_THRESHOLD) \<Longrightarrow> \<not> truthy (d Fremoved) \<Longrightarrow>
         \<exists>d'. lookup (main P r w) i = Some d'
           \<and> d' Fremoved = JBool True \<and> d' FremovedByWorker = JBool True
           \<and> d' FlastSeen = JNum (Fin (clock P 0))"
proof -
  let ?now = "clock P 0"
  let ?d3 = "fst (maintain P ?now i d)"
  have "ops_for i (pass2 P r w) = []"
    using assms(3) by (intro fixed_not_promoted [OF assms(1,2)]) simp
  then have "\<forall>op \<in> set (pass2 P r w). cam_target op \<noteq> Some i"
    by (simp add: ops_for_def filter_empty_conv)
  then have eq: "lookup (main P r w) i = lookup (run_pass1 P w) i"
    unfolding main_run_pass1 by (rule lookup_exec_ops_other)
  have nd: "DeleteCam i \<notin> set (snd (maintain P ?now i d))"
    using maintain_delete(1) [of i P ?now i d] assms(3) by blast
  from main_present [OF assms(1,2) nd] obtain d' where
    d': "lookup (main P r w) i = Some d'" by blast
  have "d' f = d f"
    if f: "f \<notin> {Ftimestamp, Fconfidence, Fhotspot, Fremoved, FremovedByWorker, FlastSeen}" for f
  proof -
    have "\<forall>op \<in> set (snd (maintain P ?now i d)). \<not> writes_field f op \<and> op \<noteq> DeleteCam i"
      using f by (auto simp: maintain_fixed [OF assms(3)] snd_blocks mark_removed_def
                       split: if_splits)
    from run_pass1_field_kept [OF assms(1,2) this] d' eq show ?thesis
      by (simp add: stored_field_def)
  qed
  with d' show "\<exists>d'. lookup (main P r w) i = Some d'
           \<and> (\<forall>f. f \<notin> {Ftimestamp, Fconfidence, Fhotspot, Fremoved, FremovedByWorker, FlastSeen}
                  \<longrightarrow> d' f = d f)" by blast
  assume ok: "\<not> failed w" and re: "reaches P w i"
    and c: "num_le (count_of P d) (Fin FIXED_REMOVE_THRESHOLD)" and nr: "\<not> truthy (d Fremoved)"
  have own: "printable P ?now d" using assms(3) by (simp add: printable_def)
  from run_pass1_reaches [OF assms(1) ok assms(2) re own] eq
    after_maintain_fixed [OF assms(3), of P ?now i] c nr
  show "\<exists>d'. lookup (main P r w) i = Some d'
           \<and> d' Fremoved = JBool True \<and> d' FremovedByWorker = JBool True
           \<and> d' FlastSeen = JNum (Fin ?now)" by simp
qed


subsection \<open>C6: records that are already removed\<close>

text \<open>
  Claim C6 says that the run neither deletes nor changes a record that is already
  removed. The worker has no such guard: the removed report below is older than
  the window and is deleted.
\<close>

theorem removed_record_deleted:
  "stored_field w6 ''x'' Fremoved = Some (JBool True)
   \<and> \<not> failed (main P0 None w6) \<and> lookup (main P0 None w6) ''x'' = None"
  by (simp add: w6_def example_defs pass1_eval run_eval)

text \<open>
  Claim C6 as amended. For a record whose removed flag is set, no write of its iteration
  names removed or removedByWorker, and as long as the record is stored the run leaves
  the two fields as they were: the record is neither marked again nor re-activated. When
  the first loop reaches the record and runs its iteration to the end, the run deletes
  the record exactly when it is due for deletion: not a fixed camera, not a hotspot, dead
  or found expired, and with a timestamp that reads below the window cutoff. The
  iteration leaves the record alone, with no write at all, exactly when the record is
  settled: timestamp and confidence are set, and it is a fixed camera flagged hotspot, or
  a mobile or other record with expiresAt and lastSeen set that is a hotspot not found
  expired or a non-hotspot not due for deletion.
\<close>

theorem removed_record_not_remarked:
  assumes "distinct (map fst (cameras w))" "\<not> failed w" "(i, d) \<in> set (cameras w)"
    and "reaches P w i" "printable P (clock P 0) d"
    and "truthy (d Fremoved)"
  shows "(\<forall>op \<in> set (snd (maintain P (clock P 0) i d)).
            \<not> writes_field Fremoved op \<and> \<not> writes_field FremovedByWorker op)
     \<and> (lookup (main P r w) i = None
        \<or> stored_field (main P r w) i Fremoved = Some (d Fremoved)
          \<and> stored_field (main P r w) i FremovedByWorker = Some (d FremovedByWorker))
     \<and> (lookup (main P r w) i = None \<longleftrightarrow> due_for_deletion P (clock P 0) d)
     \<and> (maintain P (clock P 0) i d = (d, []) \<longleftrightarrow> settled P (clock P 0) d)"
proof -
  let ?now = "clock P 0"
  have nw: "\<forall>op \<in> set (snd (maintain P ?now i d)).
              \<not> writes_field Fremoved op \<and> \<not> writes_field FremovedByWorker op"
    using maintain_no_removed_write [of d _ P ?now i] assms(6) by blast
  have kept: "lookup (main P r w) i = None
        \<or> stored_field (main P r w) i Fremoved = Some (d Fremoved)
          \<and> stored_field (main P r w) i FremovedByWorker = Some (d FremovedByWorker)"
    using main_field_kept [OF assms(1,3), of Fremoved P r]
      main_field_kept [OF assms(1,3), of FremovedByWorker P r] nw by auto
  have del: "lookup (main P r w) i = None \<longleftrightarrow> due_for_deletion P ?now d"
  proof
    assume gone: "lookup (main P r w) i = None"
    show "due_for_deletion P ?now d"
    proof (rule ccontr)
      assume "\<not> due_for_deletion P ?now d"
      then have "DeleteCam i \<notin> set (snd (maintain P ?now i d))"
        by (simp add: maintain_delete_iff)
      from main_present [OF assms(1,3) this, of r] gone show False by simp
    qed
  next
    assume "due_for_deletion P ?now d"
    then have "DeleteCam i \<in> set (snd (maintain P ?now i d))"
      by (simp add: maintain_delete_iff)
    from maintain_delete_after [OF this] run_pass1_reaches [OF assms(1-5)]
    have "lookup (run_pass1 P w) i = None" by simp
    then show "lookup (main P r w) i = None" by (rule main_absent)
  qed
  have "maintain P ?now i d = (d, []) \<longleftrightarrow> settled P ?now d"
    using assms(6) by (rule maintain_settled_iff)
  with nw kept del show ?thesis by blast
qed

theorem removed_record_not_remarked_witness:
  "lookup (main P0 None w6) ''x'' = None
   \<and> due_for_deletion P0 1700000000000
        ((report 51 1 1690000000000 (JNum (Fin 0)))(Fremoved := JBool True))
   \<and> \<not> settled P0 1700000000000
        ((report 51 1 1690000000000 (JNum (Fin 0)))(Fremoved := JBool True))"
proof -
  let ?d = "(report 51 1 1690000000000 (JNum (Fin 0)))(Fremoved := JBool True)"
  have a: "distinct (map fst (cameras w6))" "\<not> failed w6" "(''x'', ?d) \<in> set (cameras w6)"
      "reaches P0 w6 ''x''" "printable P0 (clock P0 0) ?d" "truthy (?d Fremoved)"
    by (simp_all add: w6_def example_defs reaches_def printable_clock_def printable_def
          valid_time_def PRESERVE_HOTSPOT_DAYS_def MS_DAY_def)
  have b: "lookup (main P0 None w6) ''x'' = None"
    by (simp add: w6_def example_defs pass1_eval run_eval)
  have c: "clock P0 0 = 1700000000000" by (simp add: P0_def)
  from removed_record_not_remarked [OF a, of None] b
  have "due_for_deletion P0 (clock P0 0) ?d" by blast
  moreover have "\<not> settled P0 (clock P0 0) ?d"
    using calculation by (simp add: settled_def report_def type_of_def js_or_def)
  ultimately show ?thesis using b c by simp
qed

subsection \<open>C7: a record deleted by the first pass takes no part in clustering\<close>

text \<open>
  Claim C7 says that the candidates of the cluster detection are recomputed from the
  state after the mutations of the first pass. The worker reads the store once: the
  candidates are the entries of its in-memory array, which has the defaults but none of
  the lifecycle writes. The dead report \<^verbatim>\<open>x\<close> below is hidden by the first pass, with
  removed = true and lastSeen = now in the store; its candidate entry still has no
  removed flag and the old lastSeen, it seeds a cluster, and its promotion writes the
  old lastSeen back.
\<close>

theorem candidates_not_recomputed:
  "stored_field (run_pass1 P0 wv1) ''x'' Fremoved = Some (JBool True)
   \<and> stored_field (run_pass1 P0 wv1) ''x'' FlastSeen = Some (JNum (Fin 1700000000000))
   \<and> candidate_field P0 None wv1 ''x'' Fremoved = Some JUndefined
   \<and> candidate_field P0 None wv1 ''x'' FlastSeen = Some (JNum (Fin 1699999000000))
   \<and> \<not> failed (main P0 None wv1)
   \<and> stored_field (main P0 None wv1) ''x'' Fhotspot = Some (JBool True)
   \<and> stored_field (main P0 None wv1) ''x'' FlastSeen = Some (JNum (Fin 1699999000000))"
  by (simp add: wv1_def example_defs pass1_eval run_eval candidate_field_def candidates_def)

text \<open>
  Claim C7 as amended. Every candidate of the cluster detection is a raw report or the
  in-memory entry of a stored document, as the iteration of the first loop left it. Let
  the first loop reach a document that is due for deletion and run its iteration to the
  end. The first pass deletes the document. The window filter rejects its in-memory
  entry: every candidate that carries its id is a raw report, so the deleted record is
  neither a seed nor a counted neighbour. No write of the second pass addresses the
  document, and it is absent from the store after the run.
\<close>

theorem deleted_record_not_clustered:
  assumes "distinct (map fst (cameras w))" "\<not> failed w" "(i, d) \<in> set (cameras w)"
    and "reaches P w i" "printable P (clock P 0) d"
    and "due_for_deletion P (clock P 0) d"
  shows "(\<forall>n \<in> set (candidates P r w). n \<in> set (reportDocs r)
            \<or> (\<exists>e. (fst n, e) \<in> set (cameras w) \<and> snd n = fst (maintain P (clock P 0) (fst n) e)))
     \<and> lookup (run_pass1 P w) i = None
     \<and> (\<forall>n \<in> set (candidates P r w). fst n = i \<longrightarrow> n \<in> set (reportDocs r))
     \<and> (\<forall>p. UpdateCam i p \<notin> set (pass2 P r w))
     \<and> lookup (main P r w) i = None"
proof -
  let ?now = "clock P 0"
  have d: "DeleteCam i \<in> set (snd (maintain P ?now i d))"
    using assms(6) by (simp add: maintain_delete_iff)
  then have p1del: "DeleteCam i \<in> set (snd (pass1 P w))"
    using assms(3) by (force simp: pass1_def per_doc_pass_mem)
  have mem: "n \<in> set (reportDocs r)
      \<or> (\<exists>e. (fst n, e) \<in> set (cameras w) \<and> snd n = fst (maintain P ?now (fst n) e))"
    if n: "n \<in> set (candidates P r w)" for n
  proof (cases "n \<in> set (reportDocs r)")
    case False
    with n have "(fst n, snd n) \<in> set (fst (pass1 P w))"
      by (auto simp: candidates_def mobileDocs_def)
    from pass1_entry [OF this] show ?thesis by blast
  qed simp
  have cand: "n \<in> set (reportDocs r)" if n: "n \<in> set (candidates P r w)" "fst n = i" for n
  proof (rule ccontr)
    assume nr: "n \<notin> set (reportDocs r)"
    with n(1) have rec: "recent_mobile P (hotspotWindowCutoff ?now) (snd n)"
      by (auto simp: candidates_def mobileDocs_def)
    from mem [OF n(1)] nr n(2) obtain e where
      e: "(i, e) \<in> set (cameras w)" "snd n = fst (maintain P ?now i e)" by auto
    have "e = d"
      using map_of_is_SomeI [OF assms(1) e(1)] map_of_is_SomeI [OF assms(1,3)] by simp
    with maintain_delete_not_recent [OF d] rec e(2) show False by simp
  qed
  have upd: "UpdateCam i p \<notin> set (pass2 P r w)" for p
    using pass2_update_not_deleted(2) [OF assms(1)] p1del by blast
  have gone: "lookup (run_pass1 P w) i = None"
    using maintain_delete_after [OF d] run_pass1_reaches [OF assms(1-5)] by simp
  from mem gone cand upd main_absent [OF gone] show ?thesis by blast
qed

theorem deleted_record_not_clustered_witness:
  "lookup (run_pass1 P0 w7) ''old'' = None
   \<and> UpdateCam ''old'' [] \<notin> set (pass2 P0 None w7)
   \<and> lookup (main P0 None w7) ''old'' = None"
proof -
  let ?d = "report 51 1 1690000000000 (JNum (Fin 0))"
  have a: "distinct (map fst (cameras w7))" "\<not> failed w7" "(''old'', ?d) \<in> set (cameras w7)"
      "reaches P0 w7 ''old''" "printable P0 (clock P0 0) ?d"
    by (simp_all add: w7_def example_defs reaches_def printable_clock_def printable_def
          valid_time_def PRESERVE_HOTSPOT_DAYS_def MS_DAY_def)
  have b: "due_for_deletion P0 (clock P0 0) ?d"
    by (simp add: due_for_deletion_def example_defs type_of_def js_or_def count_of_def
          timestamp_ms_def hotspotWindowCutoff_def HOTSPOT_WINDOW_DAYS_def MS_DAY_def)
  from deleted_record_not_clustered [OF a b, of None] show ?thesis by blast
qed

subsection \<open>C8: defaults are written into falsy fields only\<close>

text \<open>
  Claim C8 says that normalization never overwrites a field that already has a value. The
  guards of the code test truthiness, so a stored timestamp of 0 is a value and is
  replaced by now.
\<close>

theorem falsy_timestamp_overwritten:
  "d8 Ftimestamp = JNum (Fin 0)
   \<and> stored_field (store [(''a'', d8)]) ''a'' Ftimestamp = Some (JNum (Fin 0))
   \<and> stored_field (run_pass1 P0 (store [(''a'', d8)])) ''a'' Ftimestamp
       = Some (JNum (Fin 1700000000000))"
  by (simp add: d8_def example_defs pass1_eval run_pass1_def lookup_def stored_field_def
        exec_ops_def AList.update_conv')

text \<open>
  Claim C8 as amended. In one iteration of the first pass, a truthy timestamp is kept and
  no write names the field; a confidence other than undefined and null is kept and no
  write names the field; a truthy expiresAt is kept in memory and the only write that can
  name it is the extension of an expired hotspot; a truthy lastSeen is kept in memory and
  the only writes that can name it are the two lifecycle writes (hiding the document,
  extending an expired hotspot). The defaults therefore go into falsy fields only
  (absent, null, false, 0, NaN, empty text; for confidence: absent or null).
\<close>

theorem defaults_only_replace_falsy_values:
  "(truthy (d Ftimestamp) \<longrightarrow>
      fst (maintain P now i d) Ftimestamp = d Ftimestamp
      \<and> (\<forall>op \<in> set (snd (maintain P now i d)). \<not> writes_field Ftimestamp op))
   \<and> (d Fconfidence \<noteq> JUndefined \<and> d Fconfidence \<noteq> JNull \<longrightarrow>
      fst (maintain P now i d) Fconfidence = d Fconfidence
      \<and> (\<forall>op \<in> set (snd (maintain P now i d)). \<not> writes_field Fconfidence op))
   \<and> (truthy (d FexpiresAt) \<longrightarrow>
      fst (maintain P now i d) FexpiresAt = d FexpiresAt
      \<and> (\<forall>op \<in> set (snd (maintain P now i d)). writes_field FexpiresAt op \<longrightarrow>
            op = UpdateCam i [(FexpiresAt, JNum (Fin (now + PRESERVE_HOTSPOT_DAYS * MS_DAY))),
                              (FlastSeen, JNum (Fin now))]))
   \<and> (truthy (d FlastSeen) \<longrightarrow>
      fst (maintain P now i d) FlastSeen = d FlastSeen
      \<and> (\<forall>op \<in> set (snd (maintain P now i d)). writes_field FlastSeen op \<longrightarrow>
            op = mark_removed now i
            \<or> op = UpdateCam i [(FexpiresAt, JNum (Fin (now + PRESERVE_HOTSPOT_DAYS * MS_DAY))),
                                (FlastSeen, JNum (Fin now))]))"
proof (cases "type_of d = JStr ''fixed_camera''")
  case True
  show ?thesis
    by (simp add: maintain_fixed [OF True] fst_blocks snd_blocks mark_removed_def)
next
  case False
  have pp: "op \<in> set (preserve_patch P now i c e) \<Longrightarrow>
      \<not> writes_field Ftimestamp op \<and> \<not> writes_field Fconfidence op
      \<and> (writes_field FexpiresAt op \<longrightarrow>
            op = UpdateCam i [(FexpiresAt, JNum (Fin (now + PRESERVE_HOTSPOT_DAYS * MS_DAY))),
                              (FlastSeen, JNum (Fin now))])
      \<and> (writes_field FlastSeen op \<longrightarrow>
            op = mark_removed now i
            \<or> op = UpdateCam i [(FexpiresAt, JNum (Fin (now + PRESERVE_HOTSPOT_DAYS * MS_DAY))),
                                (FlastSeen, JNum (Fin now))])" for op c e
    using preserve_patch_cases [of P now i c e] by (auto simp: mark_removed_def)
  show ?thesis
    using pp by (simp add: maintain_other [OF False] Let_def fst_blocks snd_blocks ball_Un)
qed

theorem defaults_only_replace_falsy_values_witness:
  "fst (maintain P0 1700000000000 ''h''
          ((report 51 1 1699000000000 (JNum (Fin 0)))(Fhotspot := JBool True))) Ftimestamp
     = JNum (Fin 1699000000000)
   \<and> list_all (\<lambda>op. \<not> writes_field Ftimestamp op \<and> \<not> writes_field Fconfidence op)
        (snd (maintain P0 1700000000000 ''h''
                ((report 51 1 1699000000000 (JNum (Fin 0)))(Fhotspot := JBool True))))"
proof -
  let ?d = "(report 51 1 1699000000000 (JNum (Fin 0)))(Fhotspot := JBool True)"
  have t: "truthy (?d Ftimestamp)" "?d Fconfidence \<noteq> JUndefined \<and> ?d Fconfidence \<noteq> JNull"
      "?d Ftimestamp = JNum (Fin 1699000000000)"
    by (simp_all add: report_def)
  from defaults_only_replace_falsy_values [of ?d P0 1700000000000 "''h''"] t show ?thesis
    unfolding list_all_iff by metis
qed

subsection \<open>C9: the count of a document whose count field is not a number\<close>

text \<open>
  Claim C9 says that a count that is not numeric is treated as 0. On the code a text that
  is not a numeral gives NaN, and every comparison with NaN is false: the live report
  below is left alone with count \<^verbatim>\<open>abc\<close>, while with count 0 it is hidden. The boolean true
  counts as 1.
\<close>

theorem non_numeric_count_is_not_zero:
  "count_of P0 (report 51 1 1699999000000 (JStr ''abc'')) = NaN
   \<and> snd (maintain P0 1700000000000 ''a'' (report 51 1 1699999000000 (JStr ''abc''))) = []
   \<and> snd (maintain P0 1700000000000 ''a'' (report 51 1 1699999000000 (JNum (Fin 0))))
       = [mark_removed 1700000000000 ''a'']
   \<and> count_of P0 (report 51 1 1699999000000 (JBool True)) = Fin 1"
  by (simp add: example_defs pass1_eval)

subsection \<open>C10: a zero latitude or longitude excludes a record from clustering\<close>

text \<open>
  Claim C10 names three fields. A stored timestamp of 0 does not exclude a record: the
  first pass replaces it by now, in the store and in memory, before the detector runs.
  The report \<^verbatim>\<open>z\<close> below, stored with timestamp 0, is promoted with the two reports at
  its point.
\<close>

theorem zero_timestamp_promoted:
  "stored_field wz ''z'' Ftimestamp = Some (JNum (Fin 0))
   \<and> stored_field wz ''z'' Fhotspot = Some JUndefined
   \<and> \<not> failed (main P0 None wz)
   \<and> stored_field (main P0 None wz) ''z'' Fhotspot = Some (JBool True)"
  by (simp add: wz_def d8_def example_defs pass1_eval run_eval)

text \<open>
  Claim C10 as amended. An entry whose latitude or longitude is the number 0 is in no
  list of neighbours that the detector computes, and is skipped as a seed. For a stored
  document with such a coordinate: the candidate that carries its id and is not a raw
  report has its coordinates, no write of the second pass addresses it, and after the
  run it is what the first pass made of it: it cannot be promoted by clustering.
\<close>

theorem zero_coordinate_excluded_from_clustering:
  assumes "d Flat = JNum (Fin 0) \<or> d Flon = JNum (Fin 0)"
  shows "(\<forall>nb. nearby P b docs = Some nb \<longrightarrow> (i, d) \<notin> set nb)
     \<and> hotspot_pass P docs t ((i, d) # bases) = hotspot_pass P docs t bases
     \<and> (distinct (map fst (cameras w)) \<and> (i, d) \<in> set (cameras w) \<longrightarrow>
          (\<forall>n \<in> set (candidates P r w). fst n = i \<and> n \<notin> set (reportDocs r)
              \<longrightarrow> snd n Flat = d Flat \<and> snd n Flon = d Flon)
          \<and> ops_for i (pass2 P r w) = []
          \<and> lookup (main P r w) i = lookup (run_pass1 P w) i)"
proof -
  have np: "\<not> has_point d" using assms by (auto simp: has_point_def)
  have 1: "(i, d) \<notin> set nb" if "nearby P b docs = Some nb" for nb
    using nearby_Some [OF that] np by (simp add: neighbours_def)
  have 2: "hotspot_pass P docs t ((i, d) # bases) = hotspot_pass P docs t bases"
    using np by (simp add: hotspot_pass_step)
  have 3: "snd n Flat = d Flat \<and> snd n Flon = d Flon"
    if dist: "distinct (map fst (cameras w))" and mem: "(i, d) \<in> set (cameras w)"
      and n: "n \<in> set (candidates P r w)" "fst n = i" "n \<notin> set (reportDocs r)" for n
  proof -
    from n have "(i, snd n) \<in> set (fst (pass1 P w))"
      by (auto simp: candidates_def mobileDocs_def)
    from pass1_entry [OF this] obtain e where
      e: "(i, e) \<in> set (cameras w)" "snd n = fst (maintain P (clock P 0) i e)" by auto
    have "e = d"
      using map_of_is_SomeI [OF dist e(1)] map_of_is_SomeI [OF dist mem] by simp
    with e(2) show ?thesis by (simp add: maintain_mem_other)
  qed
  from 1 2 3 zero_coordinate_not_promoted [OF _ _ assms, of w i P r] show ?thesis by blast
qed

theorem zero_coordinate_excluded_from_clustering_witness:
  "(''b'', report (5 / 10000) 0 1699999000000 (JNum (Fin 1))) \<in> set (candidates P0 None (store docs10))
   \<and> hotspot_pass P0 docs10 1 ((''b'', report (5 / 10000) 0 1699999000000 (JNum (Fin 1))) # [])
       = hotspot_pass P0 docs10 1 []
   \<and> ops_for ''b'' (pass2 P0 None (store docs10)) = []
   \<and> lookup (main P0 None (store docs10)) ''b'' = lookup (run_pass1 P0 (store docs10)) ''b''"
proof -
  let ?rb = "report (5 / 10000) 0 1699999000000 (JNum (Fin 1))"
  have z: "?rb Flat = JNum (Fin 0) \<or> ?rb Flon = JNum (Fin 0)"
    by (simp add: report_def)
  have u: "distinct (map fst (cameras (store docs10))) \<and> (''b'', ?rb) \<in> set (cameras (store docs10))"
    by (simp add: docs10_def store_def)
  have c: "(''b'', ?rb) \<in> set (candidates P0 None (store docs10))"
    by (simp add: docs10_def example_defs pass1_eval run_eval candidates_def)
  from zero_coordinate_excluded_from_clustering [OF z, of P0 "?rb" docs10 "''b''" 1 "[]" "store docs10" None] u c
  show ?thesis by blast
qed

end
